theory Spec2Isabelle
  imports Main
begin

section \<open>Channel to frequency\<close>

text \<open>
  \<^verbatim>\<open>func channelToFrequency(channel int) int\<close> of \<^verbatim>\<open>chopper.go\<close>. Go's \<^verbatim>\<open>int\<close> is a
  machine integer; the only arithmetic is \<^verbatim>\<open>2407 + channel * 5\<close> on the branch where
  \<^verbatim>\<open>0 < channel < 14\<close>, which cannot overflow, so \<open>int\<close> models it exactly.
\<close>

definition channelToFrequency :: "int \<Rightarrow> int" where
  "channelToFrequency channel =
     (if channel \<le> 0 then 0
      else if channel = 14 then 2484
      else if channel < 14 then 2407 + channel * 5
      else 0)"

section \<open>Library functions used by the parser\<close>

text \<open>
  A Go string is a sequence of bytes, here a \<open>char list\<close>. The digits \<^verbatim>\<open>0\<close> to \<^verbatim>\<open>9\<close>
  are the bytes 48 to 57.
\<close>

definition isDigit :: "char \<Rightarrow> bool" where
  "isDigit c \<longleftrightarrow> (48::nat) \<le> of_char c \<and> of_char c \<le> (57::nat)"

definition digitVal :: "char \<Rightarrow> nat" where
  "digitVal c = of_char c - 48"

text \<open>
  \<^verbatim>\<open>strconv.ParseUint\<close> and \<^verbatim>\<open>strconv.ParseInt\<close> of the Go standard library, for base 10.
  The accumulator is a \<^verbatim>\<open>uint64\<close>: its multiplication and addition wrap modulo \<open>2 ^ 64\<close>,
  and the library guards both with \<^verbatim>\<open>cutoff\<close> and \<^verbatim>\<open>n1 < n\<close>. Both functions return a value
  together with an error; on a range error the value is the nearest bound.
\<close>

datatype num_err = ErrSyntax | ErrRange

fun parseUint_loop :: "nat \<Rightarrow> nat \<Rightarrow> nat \<Rightarrow> string \<Rightarrow> nat \<times> num_err option" where
  "parseUint_loop cutoff maxVal n [] = (n, None)"
| "parseUint_loop cutoff maxVal n (c # cs) =
     (if \<not> isDigit c then (0, Some ErrSyntax)
      else if n \<ge> cutoff then (maxVal, Some ErrRange)
      else
        let n10 = (n * 10) mod 18446744073709551616;
            n1 = (n10 + digitVal c) mod 18446744073709551616
        in if n1 < n10 \<or> n1 > maxVal then (maxVal, Some ErrRange)
           else parseUint_loop cutoff maxVal n1 cs)"

definition ParseUint :: "string \<Rightarrow> nat \<Rightarrow> nat \<times> num_err option" where
  "ParseUint s bitSize =
     (if s = [] then (0, Some ErrSyntax)
      else parseUint_loop (18446744073709551615 div 10 + 1) (2 ^ bitSize - 1) 0 s)"

definition ParseInt :: "string \<Rightarrow> nat \<Rightarrow> int \<times> num_err option" where
  "ParseInt s0 bitSize =
     (if s0 = [] then (0, Some ErrSyntax)
      else
        let neg = (hd s0 = CHR ''-'');
            s = (if hd s0 = CHR ''+'' \<or> hd s0 = CHR ''-'' then tl s0 else s0);
            (un, err) = ParseUint s bitSize
        in if err = Some ErrSyntax then (0, err)
           else
             let cutoff = 2 ^ (bitSize - 1)
             in if \<not> neg \<and> un \<ge> cutoff then (int cutoff - 1, Some ErrRange)
                else if neg \<and> un > cutoff then (- int cutoff, Some ErrRange)
                else (if neg then - int un else int un, None))"

text \<open>
  The text of a \<^verbatim>\<open>*strconv.NumError\<close> as \<^verbatim>\<open>%v\<close> prints it. \<^verbatim>\<open>strconv.Quote\<close> puts the
  token between double quotes; the tokens that reach it here are digits only, which it
  does not escape.
\<close>

definition numErrText :: "num_err \<Rightarrow> string" where
  "numErrText e = (case e of ErrSyntax \<Rightarrow> ''invalid syntax'' | ErrRange \<Rightarrow> ''value out of range'')"

definition NumError_Error :: "string \<Rightarrow> num_err \<Rightarrow> string" where
  "NumError_Error num e =
     ''strconv.ParseInt: parsing '' @ [CHR 0x22] @ num @ [CHR 0x22] @ '': '' @ numErrText e"

text \<open>
  \<^verbatim>\<open>reg.ReplaceAllString(input, "")\<close> for the pattern \<^verbatim>\<open>[^0-9,]+\<close>: every maximal run of
  bytes outside the class is one match and is replaced by nothing. A byte of a multi-byte
  or malformed UTF-8 sequence is never a digit or a comma, so the byte view is exact.
\<close>

definition keep :: "char \<Rightarrow> bool" where
  "keep c \<longleftrightarrow> isDigit c \<or> c = CHR '',''"

function stripNonDigits :: "string \<Rightarrow> string" where
  "stripNonDigits [] = []"
| "stripNonDigits (c # cs) =
     (if keep c then c # stripNonDigits cs
      else stripNonDigits (dropWhile (\<lambda>x. \<not> keep x) cs))"
  by pat_completeness auto
termination
  by (relation "measure length") (auto simp: le_imp_less_Suc length_dropWhile_le)

text \<open>
  \<^verbatim>\<open>strings.Split(s, ",")\<close>: the substrings between the commas, one more than there are
  commas; the empty string gives one empty substring.
\<close>

function Split :: "string \<Rightarrow> string list" where
  "Split s =
     (if CHR '','' \<in> set s
      then takeWhile (\<lambda>c. c \<noteq> CHR '','') s # Split (tl (dropWhile (\<lambda>c. c \<noteq> CHR '','') s))
      else [s])"
  by pat_completeness auto
termination
proof (relation "measure length")
  fix s :: string
  assume "CHR '','' \<in> set s"
  then have "dropWhile (\<lambda>c. c \<noteq> CHR '','') s \<noteq> []"
    by simp
  then have "length (tl (dropWhile (\<lambda>c. c \<noteq> CHR '','') s))
      < length (dropWhile (\<lambda>c. c \<noteq> CHR '','') s)"
    by (cases "dropWhile (\<lambda>c. c \<noteq> CHR '','') s") auto
  also have "\<dots> \<le> length s"
    by (rule length_dropWhile_le)
  finally show "(tl (dropWhile (\<lambda>c. c \<noteq> CHR '','') s), s) \<in> measure length"
    by simp
qed simp

declare Split.simps [simp del]

text \<open>
  The decimal text of an integer, as \<^verbatim>\<open>%v\<close> and \<^verbatim>\<open>strconv.Itoa\<close> print it, and
  \<^verbatim>\<open>strings.Join(parts, ",")\<close>.
\<close>

definition digitChar :: "nat \<Rightarrow> char" where
  "digitChar d = ''0123456789'' ! d"

function decimal :: "nat \<Rightarrow> string" where
  "decimal n = (if n < 10 then [digitChar n] else decimal (n div 10) @ [digitChar (n mod 10)])"
  by pat_completeness auto
termination
  by (relation "measure id") auto

declare decimal.simps [simp del]

definition Itoa :: "int \<Rightarrow> string" where
  "Itoa x = (if x < 0 then CHR ''-'' # decimal (nat (- x)) else decimal (nat x))"

fun Join :: "string list \<Rightarrow> string" where
  "Join [] = []"
| "Join [x] = x"
| "Join (x # y # ys) = x @ CHR '','' # Join (y # ys)"

section \<open>The channel-list parser\<close>

text \<open>
  \<^verbatim>\<open>parseChannelsString\<close>. What a call writes to standard error is returned with the list.
  The pattern is a constant that compiles, so the error result of the Go function is
  always \<^verbatim>\<open>nil\<close> and is left out. \<^verbatim>\<open>int(value)\<close> keeps the value: it fits 32 bits.
\<close>

definition newline :: string where
  "newline = [CHR 0x0A]"

definition parseWarning :: "string \<Rightarrow> num_err \<Rightarrow> string list" where
  "parseWarning part e =
     [''WARNING: there was an error parsing: '' @ NumError_Error part e @ newline,
      ''WARNING: please report it.'' @ newline]"

fun parseParts :: "string list \<Rightarrow> int list \<Rightarrow> string list \<Rightarrow> int list \<times> string list" where
  "parseParts [] ret out = (ret, out)"
| "parseParts (part # parts) ret out =
     (if part = [] then parseParts parts ret out
      else
        (case ParseInt part 32 of
          (v, Some e) \<Rightarrow> parseParts parts ret (out @ parseWarning part e)
        | (v, None) \<Rightarrow>
            if v = 0 then parseParts parts ret out
            else parseParts parts (ret @ [v]) out))"

definition parseChannelsString :: "string \<Rightarrow> int list \<times> string list" where
  "parseChannelsString input = parseParts (Split (stripNonDigits input)) [] []"

text \<open>The value a string of digits denotes, most significant digit first.\<close>

definition decimalValue :: "string \<Rightarrow> nat" where
  "decimalValue s = foldl (\<lambda>a c. a * 10 + digitVal c) 0 s"

section \<open>Flags and the environment\<close>

text \<open>
  The flag variables of \<^verbatim>\<open>chopper.go\<close> after \<^verbatim>\<open>flag.Parse()\<close>, with the names of the flags
  that were set on the command line (what \<^verbatim>\<open>flag.Visit\<close> walks). Go's \<^verbatim>\<open>int\<close> is taken
  at 64 bits, as on amd64 and arm64.
\<close>

record flags =
  showHelp :: bool
  showVersion :: bool
  interfaceName :: string
  channelsString :: string
  delay :: int
  timeout :: int
  passed :: "string list"

definition isFlagPassed :: "flags \<Rightarrow> string \<Rightarrow> bool" where
  "isFlagPassed f name = (name \<in> set (passed f))"

text \<open>
  \<^verbatim>\<open>time.Duration\<close> is an \<^verbatim>\<open>int64\<close> count of nanoseconds, and Go's multiplication wraps
  in two's complement.
\<close>

definition wrap64 :: "int \<Rightarrow> int" where
  "wrap64 x = (x + 9223372036854775808) mod 18446744073709551616 - 9223372036854775808"

definition Millisecond :: int where
  "Millisecond = 1000000"

definition Second :: int where
  "Second = 1000000000"

definition Duration_mul :: "int \<Rightarrow> int \<Rightarrow> int" where
  "Duration_mul n unit = wrap64 (wrap64 n * unit)"

text \<open>
  What the collaborators answer: the interface enumeration of package \<^verbatim>\<open>wifi\<close> and the
  generic netlink socket. An error is the text \<^verbatim>\<open>%v\<close> prints for it.
\<close>

datatype interface_type = InterfaceTypeMonitor | InterfaceTypeOther

record wifi_interface =
  Name :: string
  Index :: int
  Type :: interface_type

record collaborators =
  wifiNew :: "string option"
  clientInterfaces :: "string + wifi_interface list"
  genetlinkDial :: "string option"
  getFamily :: "string option"

text \<open>
  How the process stands: \<^verbatim>\<open>main\<close> is running, \<^verbatim>\<open>main\<close> has returned after the loop
  ended, \<^verbatim>\<open>os.Exit\<close> was called with a status, or a panic was raised.
\<close>

datatype status = Looping | Returned | Exited int | Panicked

text \<open>
  What is written to a stream: a text, or the usage message of \<^verbatim>\<open>flag.Usage\<close>, whose
  wording is the flag package's.
\<close>

datatype written = Text string | Usage

text \<open>
  The goroutine of lines 162 to 165: not started, blocked in \<^verbatim>\<open><-quit\<close>, past the receive
  and before \<^verbatim>\<open>running = false\<close>, or finished. The timer of line 179: none, armed with a
  duration in nanoseconds, its function blocked in \<^verbatim>\<open>quit <- os.Interrupt\<close>, or done.
\<close>

datatype listener_pc = NotStarted | Waiting | Received | Done

datatype timer_state = NoTimer | Armed int | Blocked | Fired

text \<open>
  The command of lines 215 to 248: the attributes in the order the loop marshals them.
  The channel width and type are the two constants of package \<^verbatim>\<open>nl80211\<close> the loop names.
\<close>

datatype chan_width = ChanWidth20Noht

datatype chan_type = ChanHt20

datatype attribute =
  AttrIfindex nat
| AttrWiphyFreq nat
| AttrChannelWidth chan_width
| AttrWiphyChannelType chan_type

datatype command = CommandSetChannel

record message =
  Command :: command
  Data :: "attribute list"

text \<open>
  The state of the process: the flags, the global \<^verbatim>\<open>running\<close>, the number of signals
  buffered in the channel \<^verbatim>\<open>quit\<close> (capacity 1), the listener and the timer, the locals
  \<^verbatim>\<open>channels\<close>, \<^verbatim>\<open>iface.Index\<close> and \<^verbatim>\<open>idx\<close> of \<^verbatim>\<open>main\<close>, and what the process has done
  so far: the messages handed to \<^verbatim>\<open>nlSocket.Execute\<close>, the durations passed to
  \<^verbatim>\<open>time.Sleep\<close>, and the two output streams.
\<close>

record process =
  cfg :: flags
  running :: bool
  quit :: nat
  listener :: listener_pc
  timer :: timer_state
  channels :: "int list"
  ifaceIndex :: int
  idx :: nat
  sent :: "message list"
  slept :: "int list"
  stdout :: "written list"
  stderr :: "written list"
  status :: status

section \<open>Interface check\<close>

text \<open>
  \<^verbatim>\<open>checkMonitorInterface\<close>: \<open>None\<close> is the panic of \<^verbatim>\<open>log.Panicln\<close>; otherwise the
  interface or the error returned.
\<close>

definition checkMonitorInterface ::
    "collaborators \<Rightarrow> string \<Rightarrow> (string + wifi_interface) option" where
  "checkMonitorInterface env iface =
     (case wifiNew env of
       Some e \<Rightarrow> None
     | None \<Rightarrow>
        (case clientInterfaces env of
          Inl e \<Rightarrow> Some (Inl e)
        | Inr interfaces \<Rightarrow>
           (case find (\<lambda>wiface. Name wiface = iface) interfaces of
             None \<Rightarrow> Some (Inl (''cannot find '' @ iface))
           | Some ifaceFound \<Rightarrow>
               if Type ifaceFound \<noteq> InterfaceTypeMonitor
               then Some (Inl (iface @ '' is not in monitor mode''))
               else Some (Inr ifaceFound))))"

section \<open>Startup\<close>

text \<open>
  \<^verbatim>\<open>main\<close> up to the loop, lines 143 to 212. \<open>boot\<close> is the process as \<^verbatim>\<open>flag.Parse\<close>
  leaves it: \<^verbatim>\<open>running\<close> is \<^verbatim>\<open>true\<close> by its initialiser, nothing is written yet.
\<close>

definition defaultChannels :: "int list" where
  "defaultChannels = [1, 8, 2, 9, 3, 10, 4, 11, 5, 12, 6, 13, 7]"

definition boot :: "flags \<Rightarrow> process" where
  "boot f = \<lparr>cfg = f, running = True, quit = 0, listener = NotStarted, timer = NoTimer,
     channels = [], ifaceIndex = 0, idx = 0, sent = [], slept = [], stdout = [], stderr = [],
     status = Looping\<rparr>"

definition warn :: "string \<Rightarrow> process \<Rightarrow> process" where
  "warn s p = p\<lparr>stderr := stderr p @ [Text s]\<rparr>"

definition exit :: "int \<Rightarrow> process \<Rightarrow> process" where
  "exit code p = p\<lparr>status := Exited code\<rparr>"

text \<open>Lines 172 to 174: the warning about a small delay.\<close>

definition checkDelay :: "process \<Rightarrow> process" where
  "checkDelay p =
     (if isFlagPassed (cfg p) ''delay'' \<and> delay (cfg p) < 10
      then warn (''WARNING: the delay is very small, why are you doing this?'' @ newline) p
      else p)"

text \<open>Lines 175 to 183: the optional timeout.\<close>

definition armTimeout :: "process \<Rightarrow> process" where
  "armTimeout p =
     (if isFlagPassed (cfg p) ''timeout''
      then
        if timeout (cfg p) \<le> 0
        then warn (''WARNING: timeout cannot be 0, running until SIGINT.'' @ newline) p
        else p\<lparr>timer := Armed (Duration_mul (timeout (cfg p)) Second)\<rparr>
      else p)"

text \<open>Lines 184 to 187: the channel list, with the default when the parsed one is empty.\<close>

definition chooseChannels :: "process \<Rightarrow> process" where
  "chooseChannels p =
     (let (parsed, warnings) = parseChannelsString (channelsString (cfg p));
          p' = p\<lparr>stderr := stderr p @ map Text warnings\<rparr>
      in if int (length parsed) \<le> 0 then p'\<lparr>channels := defaultChannels\<rparr>
         else p'\<lparr>channels := parsed\<rparr>)"

text \<open>Lines 189 to 212: the interface, the socket, the family, and the cursor at 0.\<close>

definition connect :: "collaborators \<Rightarrow> process \<Rightarrow> process" where
  "connect env p =
     (case checkMonitorInterface env (interfaceName (cfg p)) of
       None \<Rightarrow> p\<lparr>status := Panicked\<rparr>
     | Some (Inl e) \<Rightarrow> exit 1 (warn (''ERROR: '' @ e @ newline) p)
     | Some (Inr iface) \<Rightarrow>
        (case genetlinkDial env of
          Some e \<Rightarrow>
            exit 1 (warn (''ERROR: cannot connect to Netlink socket: '' @ e @ newline) p)
        | None \<Rightarrow>
           (case getFamily env of
             Some e \<Rightarrow> exit 1 (warn (''ERROR: nl80211 not available'' @ newline) p)
           | None \<Rightarrow> p\<lparr>ifaceIndex := Index iface, idx := 0\<rparr>)))"

definition startup :: "collaborators \<Rightarrow> flags \<Rightarrow> process" where
  "startup env f =
     (let p = boot f in
      if showHelp f then exit 0 (p\<lparr>stderr := [Usage]\<rparr>)
      else if showVersion f
      then exit 0 (p\<lparr>stdout := [Text (''chopper v1.0.0'' @ newline)]\<rparr>)
      else
        let p = p\<lparr>listener := Waiting\<rparr> in
        if interfaceName f = [] then exit 1 (p\<lparr>stderr := [Usage]\<rparr>)
        else connect env (chooseChannels (armTimeout (checkDelay p))))"

section \<open>The hop loop\<close>

definition uint32 :: "int \<Rightarrow> nat" where
  "uint32 x = nat (x mod 4294967296)"

definition setChannel :: "int \<Rightarrow> int \<Rightarrow> message" where
  "setChannel ifindex channel =
     \<lparr>Command = CommandSetChannel,
      Data = [AttrIfindex (uint32 ifindex),
              AttrWiphyFreq (uint32 (channelToFrequency channel)),
              AttrChannelWidth ChanWidth20Noht,
              AttrWiphyChannelType ChanHt20]\<rparr>"

text \<open>
  What the transport does with one iteration of the loop: \<^verbatim>\<open>netlink.MarshalAttributes\<close>
  fails, \<^verbatim>\<open>nlSocket.Execute\<close> fails, or the command is acknowledged.
\<close>

datatype response = MarshalFails string | ExecuteFails string | Ack

text \<open>
  One pass through \<^verbatim>\<open>for running { ... }\<close>, lines 213 to 265: the test of the flag, then
  the body. Reading \<^verbatim>\<open>channels[idx]\<close> out of range is Go's run-time panic.
\<close>

definition iteration :: "response \<Rightarrow> process \<Rightarrow> process" where
  "iteration r p =
     (if \<not> running p then p\<lparr>status := Returned\<rparr>
      else if length (channels p) \<le> idx p then p\<lparr>status := Panicked\<rparr>
      else
        let channel = channels p ! idx p;
            nlMessage = setChannel (ifaceIndex p) channel
        in case r of
            MarshalFails e \<Rightarrow> exit 1 (warn (''ERROR: '' @ e @ newline) p)
          | ExecuteFails e \<Rightarrow>
              exit 1 (warn (''ERROR: '' @ e @ newline)
                (warn (''Cannot set channel '' @ Itoa channel @ newline)
                  (p\<lparr>sent := sent p @ [nlMessage]\<rparr>)))
          | Ack \<Rightarrow>
              let i = idx p + 1;
                  i = (if length (channels p) \<le> i then 0 else i)
              in p\<lparr>sent := sent p @ [nlMessage], idx := i,
                   slept := slept p @ [Duration_mul (delay (cfg p)) Millisecond]\<rparr>)"

section \<open>The goroutines together\<close>

text \<open>
  The process as an interleaving of atomic steps: the operating system delivers an
  interrupt to the channel \<^verbatim>\<open>quit\<close> (capacity 1; \<^verbatim>\<open>signal.Notify\<close> drops a signal the
  channel cannot take), the timer's function sends on \<^verbatim>\<open>quit\<close> (and blocks while it is
  full), the listener goroutine advances (receive, then \<^verbatim>\<open>running = false\<close>), or the loop
  makes one iteration. After \<^verbatim>\<open>os.Exit\<close>, a panic or the return of \<^verbatim>\<open>main\<close> nothing runs.
\<close>

datatype event = Interrupt | TimerFires | ListenerRuns | Iteration response

definition deliverInterrupt :: "process \<Rightarrow> process" where
  "deliverInterrupt p = (if quit p < 1 then p\<lparr>quit := quit p + 1\<rparr> else p)"

definition timerFires :: "process \<Rightarrow> process" where
  "timerFires p =
     (case timer p of
       Armed d \<Rightarrow> if quit p < 1 then p\<lparr>quit := quit p + 1, timer := Fired\<rparr>
                  else p\<lparr>timer := Blocked\<rparr>
     | _ \<Rightarrow> p)"

definition listenerRuns :: "process \<Rightarrow> process" where
  "listenerRuns p =
     (case listener p of
       Waiting \<Rightarrow>
         if quit p < 1 then p
         else if timer p = Blocked then p\<lparr>listener := Received, timer := Fired\<rparr>
         else p\<lparr>listener := Received, quit := quit p - 1\<rparr>
     | Received \<Rightarrow> p\<lparr>listener := Done, running := False\<rparr>
     | _ \<Rightarrow> p)"

definition step :: "event \<Rightarrow> process \<Rightarrow> process" where
  "step e p =
     (if status p \<noteq> Looping then p
      else case e of
          Interrupt \<Rightarrow> deliverInterrupt p
        | TimerFires \<Rightarrow> timerFires p
        | ListenerRuns \<Rightarrow> listenerRuns p
        | Iteration r \<Rightarrow> iteration r p)"

fun run :: "event list \<Rightarrow> process \<Rightarrow> process" where
  "run [] p = p"
| "run (e # es) p = run es (step e p)"

text \<open>The process after \<open>n\<close> acknowledged iterations of the loop.\<close>

definition ticks :: "nat \<Rightarrow> process \<Rightarrow> process" where
  "ticks n p = run (replicate n (Iteration Ack)) p"

section \<open>What a run shows\<close>

text \<open>
  A signal has reached the channel \<^verbatim>\<open>quit\<close>: it is in the buffer, or the listener has taken
  it out. What can be seen of the process from outside and by the loop: the flag, how the
  process stands, the cursor, the commands submitted, the sleeps and the two output streams.
\<close>

definition signalled :: "process \<Rightarrow> bool" where
  "signalled p \<longleftrightarrow> 0 < quit p \<or> listener p = Received \<or> listener p = Done"

definition observable ::
    "process \<Rightarrow> bool \<times> status \<times> nat \<times> message list \<times> int list \<times> written list \<times> written list" where
  "observable p = (running p, status p, idx p, sent p, slept p, stdout p, stderr p)"

text \<open>Two states that differ at most in the buffer of \<^verbatim>\<open>quit\<close> and in the timer.\<close>

definition alike :: "process \<Rightarrow> process \<Rightarrow> bool" where
  "alike p q \<longleftrightarrow>
     cfg p = cfg q \<and> running p = running q \<and> listener p = listener q \<and>
     channels p = channels q \<and> ifaceIndex p = ifaceIndex q \<and> idx p = idx q \<and>
     sent p = sent q \<and> slept p = slept q \<and> stdout p = stdout q \<and>
     stderr p = stderr q \<and> status p = status q"

section \<open>A concrete run\<close>

text \<open>
  An interface in monitor mode, collaborators that answer without error, and a command
  line that names the interface and a channel list: the inputs of the concrete runs below.
\<close>

definition exampleInterface :: wifi_interface where
  "exampleInterface = \<lparr>Name = ''wlan0'', Index = 3, Type = InterfaceTypeMonitor\<rparr>"

definition exampleCollaborators :: collaborators where
  "exampleCollaborators =
     \<lparr>wifiNew = None, clientInterfaces = Inr [exampleInterface], genetlinkDial = None,
      getFamily = None\<rparr>"

definition exampleFlags :: "string \<Rightarrow> flags" where
  "exampleFlags cs =
     \<lparr>showHelp = False, showVersion = False, interfaceName = ''wlan0'', channelsString = cs,
      delay = 200, timeout = 0, passed = [''interface'', ''channels'']\<rparr>"

section \<open>Facts about the parser\<close>

lemma filter_dropWhile_not: "filter P (dropWhile (\<lambda>x. \<not> P x) xs) = filter P xs"
  by (induction xs) auto

lemma stripNonDigits_filter: "stripNonDigits s = filter keep s"
  by (induction s rule: stripNonDigits.induct) (auto simp: filter_dropWhile_not)

lemma foldl_dec_ge: "n \<le> foldl (\<lambda>a c. a * 10 + digitVal c) n cs"
proof (induction cs arbitrary: n)
  case Nil
  then show ?case by simp
next
  case (Cons c cs)
  have "n \<le> n * 10 + digitVal c" by simp
  also have "\<dots> \<le> foldl (\<lambda>a c. a * 10 + digitVal c) (n * 10 + digitVal c) cs"
    by (rule Cons.IH)
  finally show ?case by simp
qed

lemma digitVal_le: "isDigit c \<Longrightarrow> digitVal c \<le> 9"
  unfolding isDigit_def digitVal_def by linarith

lemma parseUint_loop_digits:
  assumes "\<forall>c \<in> set cs. isDigit c" and "n \<le> 4294967295"
  shows "parseUint_loop 1844674407370955162 4294967295 n cs =
     (if foldl (\<lambda>a c. a * 10 + digitVal c) n cs \<le> 4294967295
      then (foldl (\<lambda>a c. a * 10 + digitVal c) n cs, None)
      else (4294967295, Some ErrRange))"
  using assms
proof (induction cs arbitrary: n)
  case Nil
  then show ?case by simp
next
  case (Cons c cs)
  let ?n1 = "n * 10 + digitVal c"
  from Cons.prems have d: "isDigit c" and ds: "\<forall>c \<in> set cs. isDigit c" by simp_all
  from d have d9: "digitVal c \<le> 9" by (rule digitVal_le)
  from Cons.prems(2) d9 have small: "n * 10 < 18446744073709551616" "?n1 < 18446744073709551616"
    by simp_all
  have nc: "\<not> 1844674407370955162 \<le> n" using Cons.prems(2) by simp
  show ?case
  proof (cases "?n1 \<le> 4294967295")
    case True
    with Cons.IH [OF ds True] d nc small show ?thesis
      by (simp add: Let_def)
  next
    case False
    have "?n1 \<le> foldl (\<lambda>a c. a * 10 + digitVal c) ?n1 cs" by (rule foldl_dec_ge)
    with False have "\<not> foldl (\<lambda>a c. a * 10 + digitVal c) ?n1 cs \<le> 4294967295" by simp
    with False d nc small show ?thesis
      by (simp add: Let_def)
  qed
qed

lemma ParseInt_digits:
  assumes "s \<noteq> []" and "\<forall>c \<in> set s. isDigit c"
  shows "ParseInt s 32 =
     (if decimalValue s < 2147483648 then (int (decimalValue s), None)
      else (2147483647, Some ErrRange))"
proof -
  from assms have "isDigit (hd s)" by (cases s) simp_all
  then have sign: "hd s \<noteq> CHR ''+''" "hd s \<noteq> CHR ''-''"
    by (auto simp: isDigit_def)
  have pu: "ParseUint s 32 =
     (if decimalValue s \<le> 4294967295 then (decimalValue s, None)
      else (4294967295, Some ErrRange))"
    using assms parseUint_loop_digits [of s 0]
    by (simp add: ParseUint_def decimalValue_def)
  show ?thesis
    using assms(1) sign by (simp add: ParseInt_def pu Let_def)
qed

lemma Split_no_comma: "CHR '','' \<notin> set s \<Longrightarrow> Split s = [s]"
  by (subst Split.simps) simp

lemma Split_comma:
  assumes "CHR '','' \<notin> set a"
  shows "Split (a @ CHR '','' # b) = a # Split b"
proof -
  from assms have "takeWhile (\<lambda>c. c \<noteq> CHR '','') (a @ CHR '','' # b) = a"
    by (induction a) auto
  moreover from assms have "dropWhile (\<lambda>c. c \<noteq> CHR '','') (a @ CHR '','' # b) = CHR '','' # b"
    by (induction a) auto
  ultimately show ?thesis
    by (subst Split.simps) simp
qed

lemma Split_tokens: "t \<in> set (Split s) \<Longrightarrow> set t \<subseteq> set s - {CHR '',''}"
proof (induction s arbitrary: t rule: Split.induct)
  case (1 s)
  show ?case
  proof (cases "CHR '','' \<in> set s")
    case True
    let ?a = "takeWhile (\<lambda>c. c \<noteq> CHR '','') s"
    let ?b = "tl (dropWhile (\<lambda>c. c \<noteq> CHR '','') s)"
    from True 1 have "t = ?a \<or> t \<in> set (Split ?b)"
      by (subst (asm) (2) Split.simps) simp
    then show ?thesis
    proof
      assume "t = ?a"
      then show ?thesis
        by (auto dest: set_takeWhileD)
    next
      assume "t \<in> set (Split ?b)"
      with 1 True have "set t \<subseteq> set ?b - {CHR '',''}" by blast
      moreover have "set ?b \<subseteq> set s"
        by (metis list.set_sel(2) set_dropWhileD subsetI tl_Nil)
      ultimately show ?thesis by blast
    qed
  next
    case False
    with 1 show ?thesis
      by (simp add: Split_no_comma)
  qed
qed

lemma parseParts_acc:
  "parseParts ps ret out =
     (ret @ fst (parseParts ps [] []), out @ snd (parseParts ps [] []))"
proof (induction ps arbitrary: ret out)
  case Nil
  then show ?case by simp
next
  case (Cons p ps)
  note ih = Cons.IH
  show ?case
  proof (cases "p = []")
    case True
    then show ?thesis using ih [of ret out] by simp
  next
    case False
    obtain v e where pi: "ParseInt p 32 = (v, e)" by (cases "ParseInt p 32")
    show ?thesis
    proof (cases e)
      case None
      show ?thesis
      proof (cases "v = 0")
        case True
        with False pi None show ?thesis using ih [of ret out] by simp
      next
        case nz: False
        with False pi None show ?thesis
          using ih [of "ret @ [v]" out] ih [of "[v]" "[]"] by simp
      qed
    next
      case (Some err)
      with False pi show ?thesis
        using ih [of ret "out @ parseWarning p err"] ih [of "[]" "parseWarning p err"] by simp
    qed
  qed
qed

lemma parseParts_append:
  "parseParts (ps @ qs) ret out =
     parseParts qs (fst (parseParts ps ret out)) (snd (parseParts ps ret out))"
  by (induction ps arbitrary: ret out) (auto split: prod.splits option.splits)

lemma parseParts_digits:
  assumes "\<forall>t \<in> set ps. \<forall>c \<in> set t. isDigit c"
  shows "parseParts ps [] [] =
     (map (\<lambda>t. int (decimalValue t))
        (filter (\<lambda>t. t \<noteq> [] \<and> decimalValue t \<noteq> 0 \<and> decimalValue t < 2147483648) ps),
      concat (map (\<lambda>t. parseWarning t ErrRange)
        (filter (\<lambda>t. t \<noteq> [] \<and> 2147483648 \<le> decimalValue t) ps)))"
  using assms
proof (induction ps)
  case Nil
  then show ?case by simp
next
  case (Cons p ps)
  then have ih: "parseParts ps [] [] =
     (map (\<lambda>t. int (decimalValue t))
        (filter (\<lambda>t. t \<noteq> [] \<and> decimalValue t \<noteq> 0 \<and> decimalValue t < 2147483648) ps),
      concat (map (\<lambda>t. parseWarning t ErrRange)
        (filter (\<lambda>t. t \<noteq> [] \<and> 2147483648 \<le> decimalValue t) ps)))"
    by simp
  show ?case
  proof (cases "p = []")
    case True
    with ih show ?thesis by simp
  next
    case False
    with Cons.prems have pi: "ParseInt p 32 =
       (if decimalValue p < 2147483648 then (int (decimalValue p), None)
        else (2147483647, Some ErrRange))"
      by (intro ParseInt_digits) simp_all
    show ?thesis
    proof (cases "decimalValue p < 2147483648")
      case True
      with False pi ih show ?thesis
        by (simp add: parseParts_acc [of ps "[_]" "[]"])
    next
      case big: False
      with False pi ih show ?thesis
        by (simp add: parseParts_acc [of ps "[]" "parseWarning p ErrRange"])
    qed
  qed
qed

lemma Split_strip_digits:
  "\<forall>t \<in> set (Split (stripNonDigits input)). \<forall>c \<in> set t. isDigit c"
proof (intro ballI)
  fix t c
  assume "t \<in> set (Split (stripNonDigits input))" and "c \<in> set t"
  then have "c \<in> set (filter keep input) - {CHR '',''}"
    using Split_tokens [of t "stripNonDigits input"] by (auto simp: stripNonDigits_filter)
  then show "isDigit c" by (auto simp: keep_def)
qed

lemma parseChannelsString_char:
  "parseChannelsString input =
     (map (\<lambda>t. int (decimalValue t))
        (filter (\<lambda>t. t \<noteq> [] \<and> decimalValue t \<noteq> 0 \<and> decimalValue t < 2147483648)
          (Split (filter keep input))),
      concat (map (\<lambda>t. parseWarning t ErrRange)
        (filter (\<lambda>t. t \<noteq> [] \<and> 2147483648 \<le> decimalValue t) (Split (filter keep input)))))"
  using parseParts_digits [OF Split_strip_digits, of input]
  by (simp add: parseChannelsString_def stripNonDigits_filter)

lemma digitChar_digit:
  assumes "d < 10"
  shows "isDigit (digitChar d) \<and> digitVal (digitChar d) = d"
proof -
  from assms have "d \<in> {0, 1, 2, 3, 4, 5, 6, 7, 8, 9}" by auto
  then show ?thesis
    by (auto simp: digitChar_def isDigit_def digitVal_def)
qed

lemma decimalValue_snoc: "decimalValue (s @ [c]) = decimalValue s * 10 + digitVal c"
  by (simp add: decimalValue_def)

lemma decimal_nonempty: "decimal n \<noteq> []"
  by (subst decimal.simps) simp

lemma decimal_digits: "\<forall>c \<in> set (decimal n). isDigit c"
proof (induction n rule: decimal.induct)
  case (1 n)
  show ?case
  proof (cases "n < 10")
    case True
    then show ?thesis by (subst decimal.simps) (simp add: digitChar_digit)
  next
    case False
    with 1 show ?thesis by (subst decimal.simps) (simp add: digitChar_digit)
  qed
qed

lemma decimalValue_decimal: "decimalValue (decimal n) = n"
proof (induction n rule: decimal.induct)
  case (1 n)
  show ?case
  proof (cases "n < 10")
    case True
    then show ?thesis
      by (subst decimal.simps) (simp add: decimalValue_def digitChar_digit)
  next
    case False
    with 1 have "decimalValue (decimal (n div 10)) = n div 10" by simp
    with False show ?thesis
      by (subst decimal.simps) (simp add: decimalValue_snoc digitChar_digit)
  qed
qed

lemma Itoa_nonneg: "0 \<le> x \<Longrightarrow> Itoa x = decimal (nat x)"
  by (simp add: Itoa_def)

lemma isDigit_not_comma: "isDigit c \<Longrightarrow> c \<noteq> CHR '',''"
  by (auto simp: isDigit_def)

lemma filter_keep_Join:
  "\<forall>t \<in> set ts. \<forall>c \<in> set t. isDigit c \<Longrightarrow> filter keep (Join ts) = Join ts"
  by (induction ts rule: Join.induct) (auto simp: keep_def)

lemma Split_Join:
  "ts \<noteq> [] \<Longrightarrow> \<forall>t \<in> set ts. \<forall>c \<in> set t. isDigit c \<Longrightarrow> Split (Join ts) = ts"
proof (induction ts rule: Join.induct)
  case 1
  then show ?case by simp
next
  case (2 x)
  then have "CHR '','' \<notin> set x" by (auto dest: isDigit_not_comma)
  then show ?case by (simp add: Split_no_comma)
next
  case (3 x y ys)
  then have "CHR '','' \<notin> set x" by (auto dest: isDigit_not_comma)
  with 3 show ?case by (simp add: Split_comma)
qed

lemma parse_Join_Itoa:
  assumes "\<forall>x \<in> set xs. 0 < x \<and> x < 2147483648"
  shows "parseChannelsString (Join (map Itoa xs)) = (xs, [])"
proof (cases "xs = []")
  case True
  then show ?thesis
    by (simp add: parseChannelsString_def Split_no_comma)
next
  case False
  let ?ts = "map Itoa xs"
  have tok: "\<forall>t \<in> set ?ts. \<forall>c \<in> set t. isDigit c"
    using assms decimal_digits by (auto simp: Itoa_nonneg)
  from False have ne: "?ts \<noteq> []" by simp
  have sp: "Split (filter keep (Join ?ts)) = ?ts"
    using tok ne by (simp add: filter_keep_Join Split_Join)
  have val: "\<And>x. x \<in> set xs \<Longrightarrow> Itoa x \<noteq> [] \<and> decimalValue (Itoa x) = nat x"
    using assms by (auto simp: Itoa_def decimal_nonempty decimalValue_decimal)
  have acc: "filter (\<lambda>t. t \<noteq> [] \<and> decimalValue t \<noteq> 0 \<and> decimalValue t < 2147483648) ?ts = ?ts"
    using assms val by (auto simp: filter_id_conv)
  have ov: "filter (\<lambda>t. t \<noteq> [] \<and> 2147483648 \<le> decimalValue t) ?ts = []"
    using assms val by (auto simp: filter_empty_conv)
  have mp: "map (\<lambda>t. int (decimalValue t)) ?ts = xs"
  proof -
    have "map (\<lambda>t. int (decimalValue t)) ?ts = map (\<lambda>x. x) xs"
      unfolding map_map comp_def
    proof (rule map_cong [OF refl])
      fix x assume "x \<in> set xs"
      with assms val [of x] show "int (decimalValue (Itoa x)) = x" by auto
    qed
    then show ?thesis by simp
  qed
  show ?thesis
    unfolding parseChannelsString_char sp acc ov mp by simp
qed

lemma parse_range: "x \<in> set (fst (parseChannelsString input)) \<Longrightarrow> 0 < x \<and> x < 2147483648"
  by (auto simp: parseChannelsString_char)

lemmas parse_eval =
  parseChannelsString_def Split.simps keep_def isDigit_def ParseInt_def ParseUint_def
  digitVal_def Let_def

section \<open>Facts about the hop loop\<close>

lemma run_append: "run (es @ fs) p = run fs (run es p)"
  by (induction es arbitrary: p) simp_all

lemma run_stopped: "status p \<noteq> Looping \<Longrightarrow> run es p = p"
  by (induction es arbitrary: p) (simp_all add: step_def)

lemma ticks_Suc: "ticks (Suc n) p = step (Iteration Ack) (ticks n p)"
proof -
  have "replicate (Suc n) (Iteration Ack) = replicate n (Iteration Ack) @ [Iteration Ack]"
    by (simp add: replicate_append_same)
  then show ?thesis
    unfolding ticks_def by (simp only: run_append run.simps)
qed

lemma step_Ack:
  assumes "status p = Looping" and "running p" and "idx p < length (channels p)"
  shows "step (Iteration Ack) p =
     p\<lparr>sent := sent p @ [setChannel (ifaceIndex p) (channels p ! idx p)],
       idx := (idx p + 1) mod length (channels p),
       slept := slept p @ [Duration_mul (delay (cfg p)) Millisecond]\<rparr>"
proof (cases "length (channels p) \<le> idx p + 1")
  case True
  with assms(3) have "idx p + 1 = length (channels p)" by simp
  then have "(idx p + 1) mod length (channels p) = 0" by simp
  with True assms show ?thesis
    by (simp add: step_def iteration_def Let_def)
next
  case False
  then have "(idx p + 1) mod length (channels p) = idx p + 1" by simp
  with False assms show ?thesis
    by (simp add: step_def iteration_def Let_def)
qed

lemma ticks_invariant:
  assumes "channels p \<noteq> []" and "status p = Looping" and "running p" and "idx p = 0"
  shows "status (ticks n p) = Looping \<and> running (ticks n p) \<and>
     channels (ticks n p) = channels p \<and> ifaceIndex (ticks n p) = ifaceIndex p \<and>
     idx (ticks n p) = n mod length (channels p)"
proof (induction n)
  case 0
  with assms show ?case by (simp add: ticks_def)
next
  case (Suc n)
  let ?q = "ticks n p"
  from assms(1) have pos: "0 < length (channels p)" by simp
  with Suc have lt: "idx ?q < length (channels ?q)" by simp
  from Suc have st: "status ?q = Looping" "running ?q" by simp_all
  have "ticks (Suc n) p = ?q\<lparr>sent := sent ?q @ [setChannel (ifaceIndex ?q) (channels ?q ! idx ?q)],
       idx := (idx ?q + 1) mod length (channels ?q),
       slept := slept ?q @ [Duration_mul (delay (cfg ?q)) Millisecond]\<rparr>"
    unfolding ticks_Suc by (rule step_Ack [OF st lt])
  with Suc show ?case
    by (simp add: mod_Suc_eq)
qed

lemma ticks_sent:
  assumes "channels p \<noteq> []" and "status p = Looping" and "running p" and "idx p = 0"
  shows "sent (ticks (Suc n) p) =
     sent (ticks n p) @ [setChannel (ifaceIndex p) (channels p ! idx (ticks n p))]"
proof -
  let ?q = "ticks n p"
  note inv = ticks_invariant [OF assms, of n]
  from assms(1) have pos: "0 < length (channels p)" by simp
  with inv have lt: "idx ?q < length (channels ?q)" by simp
  from inv have st: "status ?q = Looping" "running ?q" by simp_all
  show ?thesis
    unfolding ticks_Suc step_Ack [OF st lt] using inv by simp
qed

section \<open>Facts about startup\<close>

lemma checkDelay_fields:
  "checkDelay p = p\<lparr>stderr := stderr (checkDelay p)\<rparr>"
  by (simp add: checkDelay_def warn_def)

lemma armTimeout_fields:
  "armTimeout p = p\<lparr>stderr := stderr (armTimeout p), timer := timer (armTimeout p)\<rparr>"
  by (simp add: armTimeout_def warn_def)

lemma chooseChannels_fields:
  "chooseChannels p =
     p\<lparr>stderr := stderr (chooseChannels p),
       channels :=
        (if fst (parseChannelsString (channelsString (cfg p))) = [] then defaultChannels
         else fst (parseChannelsString (channelsString (cfg p))))\<rparr>"
  by (simp add: chooseChannels_def Let_def split: prod.splits)

lemma connect_Looping:
  assumes "status (connect env p) = Looping"
  shows "status p = Looping \<and>
    connect env p = p\<lparr>ifaceIndex := ifaceIndex (connect env p), idx := 0\<rparr>"
  using assms
  by (auto simp: connect_def exit_def warn_def split: option.splits sum.splits)

lemma startup_Looping:
  assumes "status (startup env f) = Looping"
  shows "idx (startup env f) = 0 \<and> running (startup env f) \<and> sent (startup env f) = [] \<and>
    listener (startup env f) = Waiting \<and> quit (startup env f) = 0 \<and>
    cfg (startup env f) = f \<and>
    channels (startup env f) =
      (if fst (parseChannelsString (channelsString f)) = [] then defaultChannels
       else fst (parseChannelsString (channelsString f)))"
proof -
  let ?p = "(boot f)\<lparr>listener := Waiting\<rparr>"
  let ?d = "checkDelay ?p"
  let ?t = "armTimeout ?d"
  let ?c = "chooseChannels ?t"
  from assms have flags: "\<not> showHelp f" "\<not> showVersion f" "interfaceName f \<noteq> []"
    by (auto simp: startup_def exit_def Let_def split: if_splits)
  then have st: "startup env f = connect env ?c"
    by (simp add: startup_def Let_def)
  with assms have "status (connect env ?c) = Looping" by simp
  from connect_Looping [OF this]
  have c: "connect env ?c = ?c\<lparr>ifaceIndex := ifaceIndex (connect env ?c), idx := 0\<rparr>" ..
  have d: "cfg ?d = f" "running ?d" "sent ?d = []" "listener ?d = Waiting" "quit ?d = 0"
    by (subst checkDelay_fields, simp add: boot_def)+
  have t: "cfg ?t = f" "running ?t" "sent ?t = []" "listener ?t = Waiting" "quit ?t = 0"
    by (subst armTimeout_fields, simp add: d)+
  have ch: "cfg ?c = f" "running ?c" "sent ?c = []" "listener ?c = Waiting" "quit ?c = 0"
    "channels ?c = (if fst (parseChannelsString (channelsString f)) = [] then defaultChannels
       else fst (parseChannelsString (channelsString f)))"
    by (subst chooseChannels_fields, simp add: t)+
  show ?thesis
    unfolding st by (subst c, simp add: ch)+
qed

section \<open>The concrete run, evaluated\<close>

lemmas example_defs = exampleFlags_def exampleCollaborators_def exampleInterface_def

lemma check_example:
  "checkMonitorInterface exampleCollaborators ''wlan0'' = Some (Inr exampleInterface)"
  by (simp add: checkMonitorInterface_def example_defs)

lemma connect_example:
  "connect exampleCollaborators (p\<lparr>cfg := exampleFlags cs\<rparr>) =
     p\<lparr>cfg := exampleFlags cs, ifaceIndex := 3, idx := 0\<rparr>"
proof -
  have "interfaceName (exampleFlags cs) = ''wlan0''"
    by (simp add: exampleFlags_def)
  then show ?thesis
    by (simp add: connect_def check_example)
      (simp add: exampleCollaborators_def exampleInterface_def)
qed

lemma startup_example:
  "startup exampleCollaborators (exampleFlags cs) =
     \<lparr>cfg = exampleFlags cs, running = True, quit = 0, listener = Waiting, timer = NoTimer,
      channels = (if fst (parseChannelsString cs) = [] then defaultChannels
                  else fst (parseChannelsString cs)),
      ifaceIndex = 3, idx = 0, sent = [], slept = [], stdout = [],
      stderr = map Text (snd (parseChannelsString cs)), status = Looping\<rparr>"
proof -
  let ?p = "(boot (exampleFlags cs))\<lparr>listener := Waiting\<rparr>"
  have flags: "\<not> showHelp (exampleFlags cs)" "\<not> showVersion (exampleFlags cs)"
    "interfaceName (exampleFlags cs) \<noteq> []" "channelsString (exampleFlags cs) = cs"
    "\<not> isFlagPassed (exampleFlags cs) ''delay''"
    "\<not> isFlagPassed (exampleFlags cs) ''timeout''"
    by (simp_all add: exampleFlags_def isFlagPassed_def)
  have cfg: "cfg ?p = exampleFlags cs"
    by (simp add: boot_def)
  have d: "checkDelay ?p = ?p"
    unfolding checkDelay_def cfg using flags by simp
  have t: "armTimeout ?p = ?p"
    unfolding armTimeout_def cfg using flags by simp
  have c: "chooseChannels ?p = ?p\<lparr>stderr := map Text (snd (parseChannelsString cs)),
      channels := (if fst (parseChannelsString cs) = [] then defaultChannels
                  else fst (parseChannelsString cs))\<rparr>"
    by (subst chooseChannels_fields)
      (simp add: cfg flags chooseChannels_def Let_def boot_def split: prod.splits)
  have "startup exampleCollaborators (exampleFlags cs) =
      connect exampleCollaborators (chooseChannels (armTimeout (checkDelay ?p)))"
    using flags by (simp add: startup_def Let_def)
  also have "\<dots> = connect exampleCollaborators ((?p\<lparr>stderr := map Text (snd (parseChannelsString cs)),
      channels := (if fst (parseChannelsString cs) = [] then defaultChannels
                  else fst (parseChannelsString cs))\<rparr>)\<lparr>cfg := exampleFlags cs\<rparr>)"
    unfolding d t c by (simp add: boot_def)
  also have "\<dots> = \<lparr>cfg = exampleFlags cs, running = True, quit = 0, listener = Waiting, timer = NoTimer,
      channels = (if fst (parseChannelsString cs) = [] then defaultChannels
                  else fst (parseChannelsString cs)),
      ifaceIndex = 3, idx = 0, sent = [], slept = [], stdout = [],
      stderr = map Text (snd (parseChannelsString cs)), status = Looping\<rparr>"
    unfolding connect_example by (simp add: boot_def)
  finally show ?thesis .
qed

lemma startup_example_parsed:
  assumes "parseChannelsString cs = (xs, [])" and "xs \<noteq> []"
  shows "startup exampleCollaborators (exampleFlags cs) =
     \<lparr>cfg = exampleFlags cs, running = True, quit = 0, listener = Waiting, timer = NoTimer,
      channels = xs, ifaceIndex = 3, idx = 0, sent = [], slept = [], stdout = [],
      stderr = [], status = Looping\<rparr>"
  unfolding startup_example assms(1) using assms(2) by simp

lemma parse_16: "parseChannelsString ''1,6'' = ([1, 6], [])"
  by (simp add: parse_eval)

lemma parse_15: "parseChannelsString ''15'' = ([15], [])"
  by (simp add: parse_eval)

lemmas startup_16 = startup_example_parsed [OF parse_16, simplified]

lemmas startup_15 = startup_example_parsed [OF parse_15, simplified]

section \<open>Facts about reachable states\<close>

lemma step_channels: "channels (step e p) = channels p"
  by (cases e)
    (auto simp: step_def deliverInterrupt_def timerFires_def listenerRuns_def iteration_def
      exit_def warn_def Let_def
      split: timer_state.splits listener_pc.splits response.splits)

lemma step_index:
  assumes "idx p < length (channels p)"
  shows "idx (step e p) < length (channels (step e p))"
proof (cases e)
  case (Iteration r)
  with assms show ?thesis
    by (cases r) (auto simp: step_def iteration_def exit_def warn_def Let_def)
qed (use assms in \<open>auto simp: step_def deliverInterrupt_def timerFires_def listenerRuns_def
      split: timer_state.splits listener_pc.splits\<close>)

lemma run_index:
  "idx p < length (channels p) \<Longrightarrow> idx (run es p) < length (channels (run es p))"
  by (induction es arbitrary: p) (simp_all add: step_index)

lemma parse_nonempty_default: "defaultChannels \<noteq> []"
  by (simp add: defaultChannels_def)

lemma startup_index:
  assumes "status (startup env f) = Looping"
  shows "idx (startup env f) < length (channels (startup env f))"
  using startup_Looping [OF assms] by (simp add: parse_nonempty_default)

lemma reachable_index:
  assumes "status (startup env f) = Looping"
  shows "idx (run es (startup env f)) < length (channels (run es (startup env f)))"
  using startup_index [OF assms] by (rule run_index)

lemma step_ExecuteFails:
  assumes "status p = Looping" and "running p" and "idx p < length (channels p)"
  shows "step (Iteration (ExecuteFails e)) p =
     p\<lparr>sent := sent p @ [setChannel (ifaceIndex p) (channels p ! idx p)],
       stderr := stderr p @
         [Text (''Cannot set channel '' @ Itoa (channels p ! idx p) @ newline),
          Text (''ERROR: '' @ e @ newline)],
       status := Exited 1\<rparr>"
  using assms by (simp add: step_def iteration_def exit_def warn_def Let_def)

section \<open>The mapper's table\<close>

text \<open>
  C4. The mapper is a total function on the integers: every channel \<open>c \<le> 0\<close> maps to 0,
  channel 14 maps to 2484, every channel with \<open>1 \<le> c < 14\<close> maps to \<open>2407 + 5 * c\<close>, and
  every channel \<open>c \<ge> 15\<close> maps to 0.
\<close>

theorem channelToFrequency_table:
  "(c \<le> 0 \<longrightarrow> channelToFrequency c = 0) \<and>
   (c = 14 \<longrightarrow> channelToFrequency c = 2484) \<and>
   (1 \<le> c \<and> c < 14 \<longrightarrow> channelToFrequency c = 2407 + 5 * c) \<and>
   (15 \<le> c \<longrightarrow> channelToFrequency c = 0)"
  by (simp add: channelToFrequency_def)

theorem channelToFrequency_table_witness:
  "channelToFrequency (- 1) = 0 \<and> channelToFrequency 14 = 2484 \<and>
   channelToFrequency 3 = 2422 \<and> channelToFrequency 15 = 0"
  using channelToFrequency_table [of "- 1"] channelToFrequency_table [of 14]
    channelToFrequency_table [of 3] channelToFrequency_table [of 15]
  by simp

section \<open>Facts about the timeout\<close>

lemma Duration_mul_Second:
  assumes "0 \<le> t" and "t \<le> 9223372036"
  shows "Duration_mul t Second = t * 1000000000"
proof -
  from assms have w: "wrap64 t = t"
    by (simp add: wrap64_def)
  from assms have "0 \<le> t * 1000000000" "t * 1000000000 < 9223372036854775808"
    by simp_all
  then have "wrap64 (t * 1000000000) = t * 1000000000"
    by (simp add: wrap64_def)
  with w show ?thesis
    by (simp add: Duration_mul_def Second_def)
qed

lemma armTimeout_not_passed:
  "\<not> isFlagPassed (cfg p) ''timeout'' \<Longrightarrow> armTimeout p = p"
  by (simp add: armTimeout_def)

lemma armTimeout_disabled:
  assumes "isFlagPassed (cfg p) ''timeout''" and "timeout (cfg p) \<le> 0"
  shows "armTimeout p =
     p\<lparr>stderr := stderr p @
       [Text (''WARNING: timeout cannot be 0, running until SIGINT.'' @ newline)]\<rparr>"
  using assms by (simp add: armTimeout_def warn_def)

lemma armTimeout_armed:
  assumes "isFlagPassed (cfg p) ''timeout''" and "0 < timeout (cfg p)"
    and "timeout (cfg p) \<le> 9223372036"
  shows "armTimeout p = p\<lparr>timer := Armed (timeout (cfg p) * 1000000000)\<rparr>"
  using assms by (simp add: armTimeout_def Duration_mul_Second)

lemma timer_signal_is_interrupt:
  assumes "timer p = Armed d" and "quit p < 1"
  shows "timerFires p = (deliverInterrupt p)\<lparr>timer := Fired\<rparr>"
  using assms by (simp add: timerFires_def deliverInterrupt_def)

lemma connect_wlan0:
  assumes "interfaceName (cfg p) = ''wlan0''"
  shows "connect exampleCollaborators p = p\<lparr>ifaceIndex := 3, idx := 0\<rparr>"
  using assms
  by (simp add: connect_def check_example)
    (simp add: exampleCollaborators_def exampleInterface_def)

lemma startup_wlan0:
  assumes "\<not> showHelp f" and "\<not> showVersion f" and "interfaceName f = ''wlan0''"
  shows "startup exampleCollaborators f =
     (chooseChannels (armTimeout (checkDelay ((boot f)\<lparr>listener := Waiting\<rparr>))))
       \<lparr>ifaceIndex := 3, idx := 0\<rparr>"
proof -
  let ?p = "(boot f)\<lparr>listener := Waiting\<rparr>"
  let ?c = "chooseChannels (armTimeout (checkDelay ?p))"
  have "cfg (checkDelay ?p) = f"
    by (subst checkDelay_fields) (simp add: boot_def)
  then have "cfg (armTimeout (checkDelay ?p)) = f"
    by (subst armTimeout_fields) simp
  then have "cfg ?c = f"
    by (subst chooseChannels_fields) simp
  with assms(3) have "interfaceName (cfg ?c) = ''wlan0''"
    by simp
  then have "connect exampleCollaborators ?c = ?c\<lparr>ifaceIndex := 3, idx := 0\<rparr>"
    by (rule connect_wlan0)
  moreover from assms have "startup exampleCollaborators f = connect exampleCollaborators ?c"
    by (simp add: startup_def Let_def)
  ultimately show ?thesis
    by simp
qed

section \<open>Facts about the termination flag\<close>

lemma step_keeps_stopped_flag: "\<not> running p \<Longrightarrow> \<not> running (step e p)"
  by (cases e)
    (auto simp: step_def deliverInterrupt_def timerFires_def listenerRuns_def iteration_def
      split: timer_state.splits listener_pc.splits)

lemma run_keeps_stopped_flag: "\<not> running p \<Longrightarrow> \<not> running (run es p)"
  by (induction es arbitrary: p) (simp_all add: step_keeps_stopped_flag)

lemma step_stopped_flag_quiet:
  "\<not> running p \<Longrightarrow> sent (step e p) = sent p \<and> slept (step e p) = slept p \<and> idx (step e p) = idx p"
  by (cases e)
    (auto simp: step_def deliverInterrupt_def timerFires_def listenerRuns_def iteration_def
      split: timer_state.splits listener_pc.splits)

lemma run_stopped_flag_quiet:
  "\<not> running p \<Longrightarrow> sent (run es p) = sent p \<and> slept (run es p) = slept p \<and> idx (run es p) = idx p"
proof (induction es arbitrary: p)
  case Nil
  then show ?case by simp
next
  case (Cons e es)
  from Cons.prems have "\<not> running (step e p)"
    by (rule step_keeps_stopped_flag)
  from Cons.IH [OF this] step_stopped_flag_quiet [OF Cons.prems, of e] show ?case
    by simp
qed

lemma alike_observable: "alike p q \<Longrightarrow> observable p = observable q"
  by (simp add: observable_def alike_def)

lemma alike_iteration:
  assumes "alike p q"
  shows "alike (iteration r p) (iteration r q)"
  using assms
  by (cases r) (simp_all add: alike_def iteration_def exit_def warn_def Let_def)

lemma alike_deliverInterrupt: "alike (deliverInterrupt p) p"
  by (simp add: alike_def deliverInterrupt_def)

lemma alike_timerFires: "alike (timerFires p) p"
  by (simp add: alike_def timerFires_def split: timer_state.splits)

lemma alike_trans: "alike p q \<Longrightarrow> alike q r \<Longrightarrow> alike p r"
  by (simp add: alike_def)

lemma alike_sym: "alike p q \<Longrightarrow> alike q p"
  by (simp add: alike_def)

lemma signalled_deliverInterrupt: "signalled p \<Longrightarrow> signalled (deliverInterrupt p)"
  by (auto simp: signalled_def deliverInterrupt_def)

lemma signalled_timerFires: "signalled p \<Longrightarrow> signalled (timerFires p)"
  by (auto simp: signalled_def timerFires_def split: timer_state.splits)

lemma signalled_listenerRuns: "signalled p \<Longrightarrow> signalled (listenerRuns p)"
  by (auto simp: signalled_def listenerRuns_def split: listener_pc.splits)

lemma signalled_iteration: "signalled p \<Longrightarrow> signalled (iteration r p)"
  by (cases r) (auto simp: signalled_def iteration_def exit_def warn_def Let_def)

lemma signalled_step: "signalled p \<Longrightarrow> signalled (step e p)"
  by (cases e)
    (simp_all add: step_def signalled_deliverInterrupt signalled_timerFires
      signalled_listenerRuns signalled_iteration)

lemma alike_listenerRuns:
  assumes "alike p q" and "signalled p" and "signalled q"
  shows "alike (listenerRuns p) (listenerRuns q)"
proof (cases "listener p")
  case Waiting
  with assms have "0 < quit p" "0 < quit q" "listener q = Waiting"
    by (simp_all add: signalled_def alike_def)
  with Waiting assms(1) show ?thesis
    by (simp add: alike_def listenerRuns_def)
next
  case Received
  with assms(1) have "listener q = Received" by (simp add: alike_def)
  with Received assms(1) show ?thesis
    by (simp add: alike_def listenerRuns_def)
next
  case NotStarted
  with assms(1) have "listener q = NotStarted" by (simp add: alike_def)
  with NotStarted assms(1) show ?thesis
    by (simp add: listenerRuns_def)
next
  case Done
  with assms(1) have "listener q = Done" by (simp add: alike_def)
  with Done assms(1) show ?thesis
    by (simp add: listenerRuns_def)
qed

lemma alike_step:
  assumes "alike p q" and "signalled p" and "signalled q"
  shows "alike (step e p) (step e q)"
proof -
  from assms(1) have st: "status p = status q"
    by (simp add: alike_def)
  show ?thesis
  proof (cases "status p = Looping")
    case False
    with st assms(1) show ?thesis
      by (simp add: step_def)
  next
    case True
    with st have lq: "status q = Looping" by simp
    show ?thesis
    proof (cases e)
      case Interrupt
      have "alike (deliverInterrupt p) q"
        using alike_deliverInterrupt assms(1) by (rule alike_trans)
      moreover have "alike q (deliverInterrupt q)"
        using alike_deliverInterrupt by (rule alike_sym)
      ultimately have "alike (deliverInterrupt p) (deliverInterrupt q)"
        by (rule alike_trans)
      with Interrupt True lq show ?thesis
        by (simp add: step_def)
    next
      case TimerFires
      have "alike (timerFires p) q"
        using alike_timerFires assms(1) by (rule alike_trans)
      moreover have "alike q (timerFires q)"
        using alike_timerFires by (rule alike_sym)
      ultimately have "alike (timerFires p) (timerFires q)"
        by (rule alike_trans)
      with TimerFires True lq show ?thesis
        by (simp add: step_def)
    next
      case ListenerRuns
      with True lq alike_listenerRuns [OF assms] show ?thesis
        by (simp add: step_def)
    next
      case (Iteration r)
      with True lq alike_iteration [OF assms(1), of r] show ?thesis
        by (simp add: step_def)
    qed
  qed
qed

lemma alike_run:
  assumes "alike p q" and "signalled p" and "signalled q"
  shows "alike (run es p) (run es q)"
  using assms
proof (induction es arbitrary: p q)
  case Nil
  then show ?case by simp
next
  case (Cons e es)
  have "alike (step e p) (step e q)"
    using Cons.prems by (rule alike_step)
  moreover have "signalled (step e p)" "signalled (step e q)"
    using Cons.prems by (simp_all add: signalled_step)
  ultimately have "alike (run es (step e p)) (run es (step e q))"
    by (rule Cons.IH)
  then show ?case by simp
qed

lemma second_signal_unobservable:
  assumes "signalled p" and "e = Interrupt \<or> e = TimerFires"
  shows "observable (run (e # es) p) = observable (run es p)"
proof -
  have "alike (step e p) p"
  proof (cases "status p = Looping")
    case True
    with assms(2) alike_deliverInterrupt [of p] alike_timerFires [of p] show ?thesis
      by (auto simp: step_def)
  next
    case False
    then show ?thesis by (simp add: step_def alike_def)
  qed
  moreover have "signalled (step e p)"
    using assms(1) by (rule signalled_step)
  ultimately have "alike (run es (step e p)) (run es p)"
    using assms(1) by (rule alike_run)
  then show ?thesis
    by (simp add: alike_observable)
qed

lemma interrupt_sets_flag:
  assumes "status p = Looping" and "listener p = Waiting" and "quit p = 0"
  shows "\<not> running (run [Interrupt, ListenerRuns, ListenerRuns] p)"
    and "signalled (step Interrupt p)"
  using assms
  by (simp_all add: step_def deliverInterrupt_def listenerRuns_def signalled_def)

lemma timer_sets_flag:
  assumes "status p = Looping" and "listener p = Waiting" and "quit p = 0"
    and "timer p = Armed d"
  shows "\<not> running (run [TimerFires, ListenerRuns, ListenerRuns] p)"
    and "signalled (step TimerFires p)"
  using assms
  by (simp_all add: step_def timerFires_def listenerRuns_def signalled_def)

lemma stopped_flag_returns:
  assumes "status p = Looping" and "\<not> running p"
  shows "step (Iteration r) p = p\<lparr>status := Returned\<rparr>"
  using assms by (simp add: step_def iteration_def)

section \<open>The parser's results\<close>

text \<open>
  C3. The parser keeps exactly the digits and commas of its input, in order, splits what
  is left at the commas, drops the empty tokens and the tokens whose value is zero, and
  returns the values of the others in input order, duplicates included (a token beyond
  32 bits is dropped as well). In particular: \<^verbatim>\<open>"1,2,3"\<close> gives \<open>[1,2,3]\<close>, \<^verbatim>\<open>"0"\<close>
  gives \<open>[]\<close>, \<^verbatim>\<open>"1,,"\<close> gives \<open>[1]\<close>, \<^verbatim>\<open>",,3"\<close> gives \<open>[3]\<close>, \<^verbatim>\<open>",,"\<close> gives \<open>[]\<close>,
  \<^verbatim>\<open>"asd1,2,3"\<close>, \<^verbatim>\<open>"1asd,2,3"\<close> and \<^verbatim>\<open>"1a,sd2,3"\<close> give \<open>[1,2,3]\<close>, and \<^verbatim>\<open>"1 2 3"\<close>
  gives \<open>[123]\<close>.
\<close>

theorem parseChannelsString_spec:
  "stripNonDigits input = filter keep input \<and>
   fst (parseChannelsString input) =
     map (\<lambda>t. int (decimalValue t))
       (filter (\<lambda>t. t \<noteq> [] \<and> decimalValue t \<noteq> 0 \<and> decimalValue t < 2147483648)
         (Split (filter keep input))) \<and>
   fst (parseChannelsString ''1,2,3'') = [1, 2, 3] \<and>
   fst (parseChannelsString ''0'') = [] \<and>
   fst (parseChannelsString ''1,,'') = [1] \<and>
   fst (parseChannelsString '',,3'') = [3] \<and>
   fst (parseChannelsString '',,'') = [] \<and>
   fst (parseChannelsString ''asd1,2,3'') = [1, 2, 3] \<and>
   fst (parseChannelsString ''1asd,2,3'') = [1, 2, 3] \<and>
   fst (parseChannelsString ''1a,sd2,3'') = [1, 2, 3] \<and>
   fst (parseChannelsString ''1 2 3'') = [123]"
proof -
  have strip: "stripNonDigits input = filter keep input"
    by (rule stripNonDigits_filter)
  have general: "fst (parseChannelsString input) =
     map (\<lambda>t. int (decimalValue t))
       (filter (\<lambda>t. t \<noteq> [] \<and> decimalValue t \<noteq> 0 \<and> decimalValue t < 2147483648)
         (Split (filter keep input)))"
    by (simp add: parseChannelsString_char)
  have e1: "fst (parseChannelsString ''1,2,3'') = [1, 2, 3]"
    by (simp add: parse_eval)
  have e2: "fst (parseChannelsString ''0'') = []"
    by (simp add: parse_eval)
  have e3: "fst (parseChannelsString ''1,,'') = [1]"
    by (simp add: parse_eval)
  have e4: "fst (parseChannelsString '',,3'') = [3]"
    by (simp add: parse_eval)
  have e5: "fst (parseChannelsString '',,'') = []"
    by (simp add: parse_eval)
  have e6: "fst (parseChannelsString ''asd1,2,3'') = [1, 2, 3]"
    by (simp add: parse_eval)
  have e7: "fst (parseChannelsString ''1asd,2,3'') = [1, 2, 3]"
    by (simp add: parse_eval)
  have e8: "fst (parseChannelsString ''1a,sd2,3'') = [1, 2, 3]"
    by (simp add: parse_eval)
  have e9: "fst (parseChannelsString ''1 2 3'') = [123]"
    by (simp add: parse_eval)
  from strip general e1 e2 e3 e4 e5 e6 e7 e8 e9 show ?thesis
    by (intro conjI)
qed

text \<open>
  C8. A token whose digits denote a value beyond the 32-bit range makes
  \<^verbatim>\<open>strconv.ParseInt\<close> return a range error, not a panic. The parser then writes two
  lines to standard error for that token, the first naming the token and the range error
  (\<^verbatim>\<open>WARNING: there was an error parsing: strconv.ParseInt: parsing "..": value out of range\<close>),
  the second \<^verbatim>\<open>WARNING: please report it.\<close>; it leaves the token out of the list, and it
  handles the tokens before and after it as it would without it.
\<close>

theorem overflowing_token_skipped:
  assumes "i < length (Split (stripNonDigits input))"
    and "Split (stripNonDigits input) ! i = tok"
    and "tok \<noteq> []"
    and "2147483648 \<le> decimalValue tok"
  shows "ParseInt tok 32 = (2147483647, Some ErrRange) \<and>
    parseChannelsString input =
      (fst (parseParts (take i (Split (stripNonDigits input))) [] []) @
         fst (parseParts (drop (Suc i) (Split (stripNonDigits input))) [] []),
       snd (parseParts (take i (Split (stripNonDigits input))) [] []) @
         [''WARNING: there was an error parsing: strconv.ParseInt: parsing '' @
            [CHR 0x22] @ tok @ [CHR 0x22] @ '': value out of range'' @ [CHR 0x0A],
          ''WARNING: please report it.'' @ [CHR 0x0A]] @
         snd (parseParts (drop (Suc i) (Split (stripNonDigits input))) [] []))"
proof -
  let ?parts = "Split (stripNonDigits input)"
  from assms(1,2) have mem: "tok \<in> set ?parts"
    by (auto simp: in_set_conv_nth)
  with Split_strip_digits have digits: "\<forall>c \<in> set tok. isDigit c"
    by blast
  from assms(3,4) digits have pi: "ParseInt tok 32 = (2147483647, Some ErrRange)"
    by (simp add: ParseInt_digits)
  have split: "?parts = take i ?parts @ [tok] @ drop (Suc i) ?parts"
    using id_take_nth_drop [OF assms(1)] assms(2) by simp
  have one: "parseParts [tok] ret out = (ret, out @ parseWarning tok ErrRange)" for ret out
    using assms(3) pi by simp
  have "parseChannelsString input =
      parseParts (take i ?parts @ [tok] @ drop (Suc i) ?parts) [] []"
    unfolding parseChannelsString_def using split by simp
  also have "\<dots> = parseParts (drop (Suc i) ?parts)
      (fst (parseParts (take i ?parts) [] []))
      (snd (parseParts (take i ?parts) [] []) @ parseWarning tok ErrRange)"
    by (simp only: parseParts_append one fst_conv snd_conv)
  also have "\<dots> =
      (fst (parseParts (take i ?parts) [] []) @ fst (parseParts (drop (Suc i) ?parts) [] []),
       snd (parseParts (take i ?parts) [] []) @ parseWarning tok ErrRange @
         snd (parseParts (drop (Suc i) ?parts) [] []))"
    by (subst parseParts_acc) simp
  finally have whole: "parseChannelsString input =
      (fst (parseParts (take i ?parts) [] []) @ fst (parseParts (drop (Suc i) ?parts) [] []),
       snd (parseParts (take i ?parts) [] []) @ parseWarning tok ErrRange @
         snd (parseParts (drop (Suc i) ?parts) [] []))" .
  have lines: "parseWarning tok ErrRange =
      [''WARNING: there was an error parsing: strconv.ParseInt: parsing '' @
         [CHR 0x22] @ tok @ [CHR 0x22] @ '': value out of range'' @ [CHR 0x0A],
       ''WARNING: please report it.'' @ [CHR 0x0A]]"
    by (simp add: parseWarning_def NumError_Error_def numErrText_def newline_def)
  from pi whole show ?thesis
    unfolding lines by (intro conjI)
qed

theorem overflowing_token_skipped_witness:
  "ParseInt ''99999999999'' 32 = (2147483647, Some ErrRange) \<and>
   parseChannelsString ''5,99999999999,6'' =
     ([5, 6],
      [''WARNING: there was an error parsing: strconv.ParseInt: parsing '' @
         [CHR 0x22] @ ''99999999999'' @ [CHR 0x22] @ '': value out of range'' @ [CHR 0x0A],
       ''WARNING: please report it.'' @ [CHR 0x0A]]) \<and>
   length (snd (parseChannelsString ''5,99999999999,6'')) = 2"
proof -
  have parts: "Split (stripNonDigits ''5,99999999999,6'') = [''5'', ''99999999999'', ''6'']"
    by (simp add: parse_eval)
  have h1: "1 < length (Split (stripNonDigits ''5,99999999999,6''))"
    unfolding parts by simp
  have h2: "Split (stripNonDigits ''5,99999999999,6'') ! 1 = ''99999999999''"
    unfolding parts by simp
  have h3: "''99999999999'' \<noteq> []"
    by simp
  have h4: "2147483648 \<le> decimalValue ''99999999999''"
    by (simp add: decimalValue_def digitVal_def)
  have before: "ParseInt ''5'' 32 = (5, None)"
    by (simp add: parse_eval)
  have after: "ParseInt ''6'' 32 = (6, None)"
    by (simp add: parse_eval)
  from overflowing_token_skipped [OF h1 h2 h3 h4] show ?thesis
    unfolding parts by (simp add: before after)
qed

text \<open>
  C10. Every element of the parser's result is strictly positive, and the parser returns
  its own result again when that result is written as decimal numbers joined by commas.
\<close>

theorem parse_positive_roundtrip:
  "(\<forall>x \<in> set (fst (parseChannelsString input)). 0 < x) \<and>
   fst (parseChannelsString (Join (map Itoa (fst (parseChannelsString input))))) =
     fst (parseChannelsString input)"
proof -
  have range: "\<forall>x \<in> set (fst (parseChannelsString input)). 0 < x \<and> x < 2147483648"
    using parse_range by blast
  then have "parseChannelsString (Join (map Itoa (fst (parseChannelsString input)))) =
      (fst (parseChannelsString input), [])"
    by (rule parse_Join_Itoa)
  with range show ?thesis
    by simp
qed

theorem parse_positive_roundtrip_witness:
  "fst (parseChannelsString ''-7,0,x11,7'') = [7, 11, 7] \<and>
   Join (map Itoa [7, 11, 7]) = ''7,11,7'' \<and>
   fst (parseChannelsString (Join (map Itoa [7, 11, 7]))) = [7, 11, 7]"
proof -
  have out: "fst (parseChannelsString ''-7,0,x11,7'') = [7, 11, 7]"
    by (simp add: parse_eval)
  have joined: "Join (map Itoa [7, 11, 7]) = ''7,11,7''"
    by (simp add: Itoa_def decimal.simps digitChar_def)
  from parse_positive_roundtrip [of "''-7,0,x11,7''"] out joined show ?thesis
    by simp
qed

section \<open>The hop loop's results\<close>

text \<open>
  C1. From the state in which the loop is entered (cursor 0, flag set) with a non-empty
  channel list, whatever the delay: after any number of acknowledged iterations the cursor
  is an index into the list, equal to the number of iterations modulo the length of the
  list; one more iteration moves it by one, wrapping to 0 at the end, so the cursor and
  the channel it selects repeat with the length of the list as period; and the command
  submitted by an iteration carries the mapper's frequency for the channel under the
  cursor. The loop is entered with the cursor at 0.
\<close>

theorem hop_cursor_periodic:
  assumes "channels p \<noteq> []" and "status p = Looping" and "running p" and "idx p = 0"
  shows "idx (ticks 0 p) = 0 \<and>
    idx (ticks n p) < length (channels p) \<and>
    idx (ticks n p) = n mod length (channels p) \<and>
    idx (ticks (Suc n) p) = (idx (ticks n p) + 1) mod length (channels p) \<and>
    idx (ticks (n + length (channels p)) p) = idx (ticks n p) \<and>
    channels (ticks n p) = channels p \<and>
    status (ticks n p) = Looping \<and>
    sent (ticks (Suc n) p) =
      sent (ticks n p) @
        [\<lparr>Command = CommandSetChannel,
          Data = [AttrIfindex (uint32 (ifaceIndex p)),
                  AttrWiphyFreq (uint32 (channelToFrequency (channels p ! idx (ticks n p)))),
                  AttrChannelWidth ChanWidth20Noht,
                  AttrWiphyChannelType ChanHt20]\<rparr>] \<and>
    (status (startup env f) = Looping \<longrightarrow> idx (startup env f) = 0)"
proof -
  note inv = ticks_invariant [OF assms]
  from assms(1) have pos: "0 < length (channels p)" by simp
  have a: "idx (ticks 0 p) = 0"
    using assms(4) by (simp add: ticks_def)
  have b: "idx (ticks n p) < length (channels p)"
    using inv [of n] pos by simp
  have c: "idx (ticks n p) = n mod length (channels p)"
    using inv [of n] by simp
  have d: "idx (ticks (Suc n) p) = (idx (ticks n p) + 1) mod length (channels p)"
    using inv [of n] inv [of "Suc n"] by (simp add: mod_Suc_eq)
  have e: "idx (ticks (n + length (channels p)) p) = idx (ticks n p)"
    using inv [of n] inv [of "n + length (channels p)"] by simp
  have f: "channels (ticks n p) = channels p" "status (ticks n p) = Looping"
    using inv [of n] by simp_all
  have g: "sent (ticks (Suc n) p) =
      sent (ticks n p) @
        [\<lparr>Command = CommandSetChannel,
          Data = [AttrIfindex (uint32 (ifaceIndex p)),
                  AttrWiphyFreq (uint32 (channelToFrequency (channels p ! idx (ticks n p)))),
                  AttrChannelWidth ChanWidth20Noht,
                  AttrWiphyChannelType ChanHt20]\<rparr>]"
    using ticks_sent [OF assms, of n] by (simp add: setChannel_def)
  have h: "status (startup env f) = Looping \<longrightarrow> idx (startup env f) = 0"
    using startup_Looping [of env f] by simp
  from a b c d e f g h show ?thesis
    by (intro conjI)
qed

theorem hop_cursor_periodic_witness:
  "idx (ticks 3 (startup exampleCollaborators (exampleFlags ''1,6''))) = 1 \<and>
   idx (ticks 5 (startup exampleCollaborators (exampleFlags ''1,6''))) = 1 \<and>
   sent (ticks 4 (startup exampleCollaborators (exampleFlags ''1,6''))) =
     sent (ticks 3 (startup exampleCollaborators (exampleFlags ''1,6''))) @
       [\<lparr>Command = CommandSetChannel,
         Data = [AttrIfindex 3, AttrWiphyFreq 2437, AttrChannelWidth ChanWidth20Noht,
                 AttrWiphyChannelType ChanHt20]\<rparr>]"
proof -
  let ?p = "startup exampleCollaborators (exampleFlags ''1,6'')"
  have parsed: "parseChannelsString ''1,6'' = ([1, 6], [])"
    by (simp add: parse_eval)
  have p: "channels ?p = [1, 6]" "status ?p = Looping" "running ?p" "idx ?p = 0"
    "ifaceIndex ?p = 3"
    by (simp_all add: startup_example parsed)
  have h1: "channels ?p \<noteq> []"
    by (simp add: p)
  have len: "length (channels ?p) = 2"
    by (simp add: p)
  note T = hop_cursor_periodic [OF h1 p(2) p(3) p(4), where n = 3]
  from T have "idx (ticks 3 ?p) = 3 mod length (channels ?p)"
    by blast
  then have i3: "idx (ticks 3 ?p) = 1"
    unfolding len by simp
  from T have "idx (ticks (3 + length (channels ?p)) ?p) = idx (ticks 3 ?p)"
    by blast
  then have i5: "idx (ticks 5 ?p) = 1"
    unfolding len i3 by simp
  from T have "sent (ticks (Suc 3) ?p) =
      sent (ticks 3 ?p) @
        [\<lparr>Command = CommandSetChannel,
          Data = [AttrIfindex (uint32 (ifaceIndex ?p)),
                  AttrWiphyFreq (uint32 (channelToFrequency (channels ?p ! idx (ticks 3 ?p)))),
                  AttrChannelWidth ChanWidth20Noht,
                  AttrWiphyChannelType ChanHt20]\<rparr>]"
    by blast
  then have s4: "sent (ticks 4 ?p) =
      sent (ticks 3 ?p) @
        [\<lparr>Command = CommandSetChannel,
          Data = [AttrIfindex 3, AttrWiphyFreq 2437, AttrChannelWidth ChanWidth20Noht,
                  AttrWiphyChannelType ChanHt20]\<rparr>]"
    unfolding i3 p by (simp add: uint32_def channelToFrequency_def)
  from i3 i5 s4 show ?thesis
    by (intro conjI)
qed

text \<open>
  C6. When the transport refuses the command of an iteration, the process writes the
  channel and the transport's error to standard error and exits with status 1: the
  command was submitted once, the cursor stays where it was, nothing sleeps, and whatever
  happens afterwards changes nothing, so no further iteration runs.
\<close>

theorem transport_failure_is_fatal:
  assumes "status (startup env f) = Looping"
    and "p = run es (startup env f)"
    and "status p = Looping" and "running p"
  shows "status (step (Iteration (ExecuteFails e)) p) = Exited 1 \<and>
    stderr (step (Iteration (ExecuteFails e)) p) =
      stderr p @ [Text (''Cannot set channel '' @ Itoa (channels p ! idx p) @ newline),
                  Text (''ERROR: '' @ e @ newline)] \<and>
    sent (step (Iteration (ExecuteFails e)) p) =
      sent p @ [setChannel (ifaceIndex p) (channels p ! idx p)] \<and>
    idx (step (Iteration (ExecuteFails e)) p) = idx p \<and>
    slept (step (Iteration (ExecuteFails e)) p) = slept p \<and>
    run later (step (Iteration (ExecuteFails e)) p) = step (Iteration (ExecuteFails e)) p"
proof -
  from assms(1,2) have lt: "idx p < length (channels p)"
    by (simp add: reachable_index)
  note st = step_ExecuteFails [OF assms(3,4) lt, of e]
  have "status (step (Iteration (ExecuteFails e)) p) \<noteq> Looping"
    unfolding st by simp
  then have "run later (step (Iteration (ExecuteFails e)) p) = step (Iteration (ExecuteFails e)) p"
    by (rule run_stopped)
  then show ?thesis
    unfolding st by simp
qed

theorem transport_failure_is_fatal_witness:
  "status (run [Iteration Ack, Iteration (ExecuteFails ''no such device''), Iteration Ack]
     (startup exampleCollaborators (exampleFlags ''1,6''))) = Exited 1 \<and>
   idx (run [Iteration Ack, Iteration (ExecuteFails ''no such device''), Iteration Ack]
     (startup exampleCollaborators (exampleFlags ''1,6''))) = 1 \<and>
   stderr (run [Iteration Ack, Iteration (ExecuteFails ''no such device''), Iteration Ack]
     (startup exampleCollaborators (exampleFlags ''1,6''))) =
     [Text (''Cannot set channel 6'' @ newline),
      Text (''ERROR: no such device'' @ newline)] \<and>
   length (sent (run [Iteration Ack, Iteration (ExecuteFails ''no such device''), Iteration Ack]
     (startup exampleCollaborators (exampleFlags ''1,6'')))) = 2"
proof -
  let ?s = "startup exampleCollaborators (exampleFlags ''1,6'')"
  let ?p = "run [Iteration Ack] ?s"
  let ?fail = "Iteration (ExecuteFails ''no such device'')"
  have s: "status ?s = Looping"
    unfolding startup_16 by simp
  have p: "?p = \<lparr>cfg = exampleFlags ''1,6'', running = True, quit = 0, listener = Waiting,
      timer = NoTimer, channels = [1, 6], ifaceIndex = 3, idx = 1, sent = [setChannel 3 1],
      slept = [Duration_mul 200 Millisecond], stdout = [], stderr = [], status = Looping\<rparr>"
    unfolding startup_16 by (simp add: step_def iteration_def Let_def exampleFlags_def)
  have h3: "status ?p = Looping" and h4: "running ?p"
    unfolding p by simp_all
  have six: "Itoa 6 = ''6''"
    by (simp add: Itoa_def decimal.simps digitChar_def)
  have unfold: "run [Iteration Ack, ?fail, Iteration Ack] ?s = run [Iteration Ack] (step ?fail ?p)"
    by simp
  note T = transport_failure_is_fatal [OF s refl h3 h4,
      where e = "''no such device''" and later = "[Iteration Ack]"]
  from T have r: "run [Iteration Ack, ?fail, Iteration Ack] ?s = step ?fail ?p"
    unfolding unfold by blast
  from T have a: "status (step ?fail ?p) = Exited 1"
    by blast
  from T have "idx (step ?fail ?p) = idx ?p"
    by blast
  then have b: "idx (step ?fail ?p) = 1"
    unfolding p by simp
  from T have "stderr (step ?fail ?p) =
      stderr ?p @ [Text (''Cannot set channel '' @ Itoa (channels ?p ! idx ?p) @ newline),
                  Text (''ERROR: '' @ ''no such device'' @ newline)]"
    by blast
  then have c: "stderr (step ?fail ?p) =
      [Text (''Cannot set channel 6'' @ newline), Text (''ERROR: no such device'' @ newline)]"
    unfolding p by (simp add: six)
  from T have "sent (step ?fail ?p) = sent ?p @ [setChannel (ifaceIndex ?p) (channels ?p ! idx ?p)]"
    by blast
  then have d: "length (sent (step ?fail ?p)) = 2"
    unfolding p by simp
  from a b c d show ?thesis
    unfolding r by (intro conjI)
qed

text \<open>
  C5. When the loop is entered, its channel list is the default sequence
  \<open>[1,8,2,9,3,10,4,11,5,12,6,13,7]\<close> of 13 channels if parsing the \<^verbatim>\<open>--channels\<close> string
  gave the empty list, and the parsed list itself otherwise. The empty string and a string
  whose tokens are all skipped parse to the empty list.
\<close>

theorem empty_parse_gives_default:
  assumes "status (startup env f) = Looping"
  shows "(fst (parseChannelsString (channelsString f)) = [] \<longrightarrow>
      channels (startup env f) = [1, 8, 2, 9, 3, 10, 4, 11, 5, 12, 6, 13, 7]) \<and>
    (fst (parseChannelsString (channelsString f)) \<noteq> [] \<longrightarrow>
      channels (startup env f) = fst (parseChannelsString (channelsString f))) \<and>
    length defaultChannels = 13 \<and>
    fst (parseChannelsString []) = [] \<and>
    fst (parseChannelsString ''0,,x'') = []"
proof -
  have a: "channels (startup env f) =
      (if fst (parseChannelsString (channelsString f)) = [] then defaultChannels
       else fst (parseChannelsString (channelsString f)))"
    using startup_Looping [OF assms] by simp
  have b: "length defaultChannels = 13"
    by (simp add: defaultChannels_def)
  have c: "fst (parseChannelsString []) = []"
    by (simp add: parse_eval)
  have d: "fst (parseChannelsString ''0,,x'') = []"
    by (simp add: parse_eval)
  from a b c d show ?thesis
    by (simp add: defaultChannels_def)
qed

theorem empty_parse_gives_default_witness:
  "channels (startup exampleCollaborators (exampleFlags [])) =
     [1, 8, 2, 9, 3, 10, 4, 11, 5, 12, 6, 13, 7] \<and>
   channels (startup exampleCollaborators (exampleFlags ''1,6'')) = [1, 6]"
proof -
  have e: "fst (parseChannelsString []) = []"
    by (simp add: parse_eval)
  have s0: "status (startup exampleCollaborators (exampleFlags [])) = Looping"
    unfolding startup_example by simp
  have s1: "status (startup exampleCollaborators (exampleFlags ''1,6'')) = Looping"
    unfolding startup_example by simp
  have c0: "channelsString (exampleFlags []) = []"
    and c1: "channelsString (exampleFlags ''1,6'') = ''1,6''"
    by (simp_all add: exampleFlags_def)
  from empty_parse_gives_default [OF s0]
  have a: "channels (startup exampleCollaborators (exampleFlags [])) =
      [1, 8, 2, 9, 3, 10, 4, 11, 5, 12, 6, 13, 7]"
    unfolding c0 using e by blast
  from empty_parse_gives_default [OF s1]
  have b: "channels (startup exampleCollaborators (exampleFlags ''1,6'')) = [1, 6]"
    unfolding c1 parse_16 by simp
  from a b show ?thesis ..
qed

text \<open>
  C2, as the code has it. The loop does not look at the mapper's result. When the channel
  under the cursor maps to 0, the command is submitted with frequency 0 like any other:
  if the transport acknowledges it, nothing is written, the process keeps looping and the
  cursor advances; only if the transport refuses it are the channel and the error
  reported and the process left with status 1.
\<close>

theorem zero_frequency_is_submitted:
  assumes "status (startup env f) = Looping"
    and "p = run es (startup env f)"
    and "status p = Looping" and "running p"
    and "channelToFrequency (channels p ! idx p) = 0"
  shows "sent (step (Iteration Ack) p) =
      sent p @
        [\<lparr>Command = CommandSetChannel,
          Data = [AttrIfindex (uint32 (ifaceIndex p)), AttrWiphyFreq 0,
                  AttrChannelWidth ChanWidth20Noht, AttrWiphyChannelType ChanHt20]\<rparr>] \<and>
    stderr (step (Iteration Ack) p) = stderr p \<and>
    status (step (Iteration Ack) p) = Looping \<and>
    idx (step (Iteration Ack) p) = (idx p + 1) mod length (channels p) \<and>
    sent (step (Iteration (ExecuteFails e)) p) =
      sent p @
        [\<lparr>Command = CommandSetChannel,
          Data = [AttrIfindex (uint32 (ifaceIndex p)), AttrWiphyFreq 0,
                  AttrChannelWidth ChanWidth20Noht, AttrWiphyChannelType ChanHt20]\<rparr>] \<and>
    stderr (step (Iteration (ExecuteFails e)) p) =
      stderr p @ [Text (''Cannot set channel '' @ Itoa (channels p ! idx p) @ newline),
                  Text (''ERROR: '' @ e @ newline)] \<and>
    status (step (Iteration (ExecuteFails e)) p) = Exited 1"
proof -
  from assms(1,2) have lt: "idx p < length (channels p)"
    by (simp add: reachable_index)
  have msg: "setChannel (ifaceIndex p) (channels p ! idx p) =
      \<lparr>Command = CommandSetChannel,
        Data = [AttrIfindex (uint32 (ifaceIndex p)), AttrWiphyFreq 0,
                AttrChannelWidth ChanWidth20Noht, AttrWiphyChannelType ChanHt20]\<rparr>"
    using assms(5) by (simp add: setChannel_def uint32_def)
  show ?thesis
    unfolding step_Ack [OF assms(3,4) lt] step_ExecuteFails [OF assms(3,4) lt] msg
    using assms(3) by simp
qed

theorem zero_frequency_is_submitted_witness:
  "sent (step (Iteration Ack) (startup exampleCollaborators (exampleFlags ''15''))) =
     [\<lparr>Command = CommandSetChannel,
       Data = [AttrIfindex 3, AttrWiphyFreq 0, AttrChannelWidth ChanWidth20Noht,
               AttrWiphyChannelType ChanHt20]\<rparr>] \<and>
   stderr (step (Iteration Ack) (startup exampleCollaborators (exampleFlags ''15''))) = [] \<and>
   status (step (Iteration (ExecuteFails ''invalid argument''))
     (startup exampleCollaborators (exampleFlags ''15''))) = Exited 1"
proof -
  let ?p = "startup exampleCollaborators (exampleFlags ''15'')"
  have h1: "status ?p = Looping" and h4: "running ?p"
    and h5: "channelToFrequency (channels ?p ! idx ?p) = 0"
    unfolding startup_15 by (simp_all add: channelToFrequency_def)
  have h2: "?p = run [] ?p"
    by simp
  have v: "sent ?p = []" "stderr ?p = []" "uint32 (ifaceIndex ?p) = 3"
    unfolding startup_15 by (simp_all add: uint32_def)
  note T = zero_frequency_is_submitted [OF h1 h2 h1 h4 h5, where e = "''invalid argument''"]
  from T have a: "sent (step (Iteration Ack) ?p) =
     [\<lparr>Command = CommandSetChannel,
       Data = [AttrIfindex 3, AttrWiphyFreq 0, AttrChannelWidth ChanWidth20Noht,
               AttrWiphyChannelType ChanHt20]\<rparr>]"
    unfolding v by simp
  from T have b: "stderr (step (Iteration Ack) ?p) = []"
    unfolding v by simp
  from T have c: "status (step (Iteration (ExecuteFails ''invalid argument'')) ?p) = Exited 1"
    by blast
  from a b c show ?thesis
    by (intro conjI)
qed

text \<open>
  C2, as the specification states it, fails for the channel list \<open>[15]\<close>: channel 15 maps
  to 0, and the first iteration submits a command with frequency 0, writes nothing and
  keeps looping.
\<close>

theorem zero_frequency_counterexample:
  "channels (startup exampleCollaborators (exampleFlags ''15'')) = [15] \<and>
   channelToFrequency 15 = 0 \<and>
   sent (run [Iteration Ack] (startup exampleCollaborators (exampleFlags ''15''))) =
     [\<lparr>Command = CommandSetChannel,
       Data = [AttrIfindex 3, AttrWiphyFreq 0, AttrChannelWidth ChanWidth20Noht,
               AttrWiphyChannelType ChanHt20]\<rparr>] \<and>
   stderr (run [Iteration Ack] (startup exampleCollaborators (exampleFlags ''15''))) = [] \<and>
   status (run [Iteration Ack] (startup exampleCollaborators (exampleFlags ''15''))) = Looping"
  unfolding startup_15
  by (simp add: step_def iteration_def setChannel_def uint32_def channelToFrequency_def Let_def)

text \<open>
  C7. In a looping process: an interrupt, and likewise the timer's signal, once the
  listener has taken it from the channel, clears the flag \<^verbatim>\<open>running\<close>; without a signal
  neither the listener nor the loop clears it; once cleared, the flag stays cleared
  whatever happens; an interrupt or timer signal that arrives after a first signal changes
  nothing that can be observed of the rest of the run; and with the flag cleared the next
  test of the loop ends it, so that iteration and all later events submit no command and
  sleep no more.
\<close>

theorem termination_flag:
  assumes "status p = Looping"
  shows "(listener p = Waiting \<and> quit p = 0 \<longrightarrow>
      \<not> running (run [Interrupt, ListenerRuns, ListenerRuns] p) \<and>
      signalled (step Interrupt p)) \<and>
    (listener p = Waiting \<and> quit p = 0 \<and> timer p = Armed d \<longrightarrow>
      \<not> running (run [TimerFires, ListenerRuns, ListenerRuns] p) \<and>
      signalled (step TimerFires p)) \<and>
    (running p \<and> listener p = Waiting \<and> quit p = 0 \<longrightarrow>
      running (step ListenerRuns p) \<and> running (step (Iteration r) p)) \<and>
    (\<not> running p \<longrightarrow> \<not> running (run es p)) \<and>
    (signalled p \<and> (e = Interrupt \<or> e = TimerFires) \<longrightarrow>
      observable (run (e # es) p) = observable (run es p)) \<and>
    (\<not> running p \<longrightarrow>
      step (Iteration r) p = p\<lparr>status := Returned\<rparr> \<and>
      sent (run es p) = sent p \<and> slept (run es p) = slept p)"
proof -
  have a: "listener p = Waiting \<and> quit p = 0 \<longrightarrow>
      \<not> running (run [Interrupt, ListenerRuns, ListenerRuns] p) \<and>
      signalled (step Interrupt p)"
    using interrupt_sets_flag [OF assms] by blast
  have b: "listener p = Waiting \<and> quit p = 0 \<and> timer p = Armed d \<longrightarrow>
      \<not> running (run [TimerFires, ListenerRuns, ListenerRuns] p) \<and>
      signalled (step TimerFires p)"
    using timer_sets_flag [OF assms] by blast
  have c: "running p \<and> listener p = Waiting \<and> quit p = 0 \<longrightarrow>
      running (step ListenerRuns p) \<and> running (step (Iteration r) p)"
    using assms
    by (cases r) (auto simp: step_def listenerRuns_def iteration_def exit_def warn_def Let_def)
  have d: "\<not> running p \<longrightarrow> \<not> running (run es p)"
    using run_keeps_stopped_flag by blast
  have e: "signalled p \<and> (e = Interrupt \<or> e = TimerFires) \<longrightarrow>
      observable (run (e # es) p) = observable (run es p)"
    using second_signal_unobservable by blast
  have f: "\<not> running p \<longrightarrow>
      step (Iteration r) p = p\<lparr>status := Returned\<rparr> \<and>
      sent (run es p) = sent p \<and> slept (run es p) = slept p"
    using stopped_flag_returns [OF assms] run_stopped_flag_quiet by blast
  from a b c d e f show ?thesis
    by (intro conjI)
qed

theorem termination_flag_witness:
  "\<not> running (run [Interrupt, ListenerRuns, ListenerRuns]
      (startup exampleCollaborators (exampleFlags ''1,6''))) \<and>
   \<not> running (run [TimerFires, ListenerRuns, ListenerRuns]
      ((startup exampleCollaborators (exampleFlags ''1,6''))\<lparr>timer := Armed 5000000000\<rparr>)) \<and>
   observable (run [Interrupt, ListenerRuns, ListenerRuns, Iteration Ack]
      (step Interrupt (startup exampleCollaborators (exampleFlags ''1,6'')))) =
     observable (run [ListenerRuns, ListenerRuns, Iteration Ack]
      (step Interrupt (startup exampleCollaborators (exampleFlags ''1,6'')))) \<and>
   sent (run [Iteration Ack, Iteration Ack]
      (run [Interrupt, ListenerRuns, ListenerRuns]
        (startup exampleCollaborators (exampleFlags ''1,6'')))) = []"
proof -
  let ?p = "startup exampleCollaborators (exampleFlags ''1,6'')"
  let ?t = "?p\<lparr>timer := Armed 5000000000\<rparr>"
  let ?i = "step Interrupt ?p"
  let ?s = "run [Interrupt, ListenerRuns, ListenerRuns] ?p"
  have p: "status ?p = Looping" "listener ?p = Waiting \<and> quit ?p = 0"
    unfolding startup_16 by simp_all
  have t: "status ?t = Looping" "listener ?t = Waiting \<and> quit ?t = 0 \<and> timer ?t = Armed 5000000000"
    unfolding startup_16 by simp_all
  have i: "status ?i = Looping" "signalled ?i \<and> (Interrupt = Interrupt \<or> Interrupt = TimerFires)"
    unfolding startup_16 by (simp_all add: step_def deliverInterrupt_def signalled_def)
  have s: "status ?s = Looping" "\<not> running ?s" "sent ?s = []"
    unfolding startup_16 by (simp_all add: step_def deliverInterrupt_def listenerRuns_def)
  from termination_flag [OF p(1)] p(2)
  have a: "\<not> running (run [Interrupt, ListenerRuns, ListenerRuns] ?p)"
    by blast
  from termination_flag [OF t(1), where d = 5000000000] t(2)
  have b: "\<not> running (run [TimerFires, ListenerRuns, ListenerRuns] ?t)"
    by blast
  from termination_flag [OF i(1), where e = Interrupt
      and es = "[ListenerRuns, ListenerRuns, Iteration Ack]"] i(2)
  have c: "observable (run [Interrupt, ListenerRuns, ListenerRuns, Iteration Ack] ?i) =
      observable (run [ListenerRuns, ListenerRuns, Iteration Ack] ?i)"
    by blast
  from termination_flag [OF s(1), where es = "[Iteration Ack, Iteration Ack]"] s(2)
  have "sent (run [Iteration Ack, Iteration Ack] ?s) = sent ?s"
    by blast
  with s(3) have d: "sent (run [Iteration Ack, Iteration Ack] ?s) = []"
    by simp
  from a b c d show ?thesis
    by (intro conjI)
qed

text \<open>
  C9 at \<^verbatim>\<open>--timeout 9223372037\<close>. The flag is passed and positive, so the timer is armed,
  but \<^verbatim>\<open>time.Duration(timeout)*time.Second\<close> exceeds 63 bits and wraps: the timer is
  armed with a negative duration, not with 9223372037 seconds. A timer with a negative
  duration is due at once; when its signal has passed through the listener the loop
  ends without a single hop.
\<close>

theorem timeout_duration_wraps:
  "timer (startup exampleCollaborators
      ((exampleFlags ''1,6'')\<lparr>timeout := 9223372037, passed := [''interface'', ''timeout'']\<rparr>)) =
     Armed (- 9223372036709551616) \<and>
   9223372037 * Second \<noteq> - 9223372036709551616 \<and>
   observable (run [TimerFires, ListenerRuns, ListenerRuns, Iteration Ack]
     (startup exampleCollaborators
       ((exampleFlags ''1,6'')\<lparr>timeout := 9223372037, passed := [''interface'', ''timeout'']\<rparr>))) =
     (False, Returned, 0, [], [], [], [])"
proof -
  let ?f = "(exampleFlags ''1,6'')\<lparr>timeout := 9223372037, passed := [''interface'', ''timeout'']\<rparr>"
  let ?p = "(boot ?f)\<lparr>listener := Waiting\<rparr>"
  have f: "\<not> showHelp ?f" "\<not> showVersion ?f" "interfaceName ?f = ''wlan0''"
    "channelsString ?f = ''1,6''" "timeout ?f = 9223372037"
    "isFlagPassed ?f ''timeout''" "\<not> isFlagPassed ?f ''delay''"
    by (simp_all add: exampleFlags_def isFlagPassed_def)
  have d: "checkDelay ?p = ?p"
    using f by (simp add: checkDelay_def boot_def)
  have "Duration_mul 9223372037 Second = - 9223372036709551616"
    by (simp add: Duration_mul_def wrap64_def Second_def)
  then have t: "armTimeout ?p = ?p\<lparr>timer := Armed (- 9223372036709551616)\<rparr>"
    using f by (simp add: armTimeout_def boot_def)
  have c: "chooseChannels (?p\<lparr>timer := Armed (- 9223372036709551616)\<rparr>) =
      ?p\<lparr>timer := Armed (- 9223372036709551616), channels := [1, 6]\<rparr>"
    using f by (simp add: chooseChannels_def parse_16 boot_def)
  have s: "startup exampleCollaborators ?f =
      ?p\<lparr>timer := Armed (- 9223372036709551616), channels := [1, 6], ifaceIndex := 3, idx := 0\<rparr>"
    unfolding startup_wlan0 [OF f(1,2,3)] d t c by simp
  have a: "timer (startup exampleCollaborators ?f) = Armed (- 9223372036709551616)"
    unfolding s by simp
  have b: "9223372037 * Second \<noteq> - 9223372036709551616"
    by (simp add: Second_def)
  have o: "observable (run [TimerFires, ListenerRuns, ListenerRuns, Iteration Ack]
      (startup exampleCollaborators ?f)) = (False, Returned, 0, [], [], [], [])"
    unfolding s
    by (simp add: observable_def step_def timerFires_def listenerRuns_def iteration_def boot_def)
  from a b o show ?thesis
    by (intro conjI)
qed

end
